theory Spec2Isabelle
  imports Complex_Main "HOL-Library.Word"
begin

unbundle bit_operations_syntax

section \<open>JavaScript numbers\<close>

text \<open>
  A JavaScript number is an IEEE double. The integer-valued numbers of the hash and of the
  generator state are modelled as \<open>int\<close>; the bitwise operators first reduce their operand
  to a signed 32-bit integer (\<open>ToInt32\<close>), \<open>>>> 0\<close> reduces it to an unsigned one.
\<close>

definition toInt32 :: "int \<Rightarrow> int" where
  "toInt32 x = sint (word_of_int x :: 32 word)"

definition toUint32 :: "int \<Rightarrow> int" where
  "toUint32 x = x mod 4294967296"

text \<open>\<open>h << k\<close>: the left operand is reduced to 32 bits, shifted, and reduced again.\<close>

definition shl32 :: "int \<Rightarrow> nat \<Rightarrow> int" where
  "shl32 h k = toInt32 (push_bit k (toInt32 h))"

text \<open>
  The sum of two integer-valued doubles is the double nearest to the exact sum, ties to
  even: the sum itself below \<open>2^53\<close>, and above it the nearest number with 53 significant
  bits. \<open>bitLength n\<close> is the number of binary digits of a positive \<open>n\<close>.
\<close>

fun bitLengthFuel :: "nat \<Rightarrow> int \<Rightarrow> nat" where
  "bitLengthFuel 0 n = 0"
| "bitLengthFuel (Suc k) n = (if n \<le> 0 then 0 else Suc (bitLengthFuel k (n div 2)))"

definition bitLength :: "int \<Rightarrow> nat" where
  "bitLength n = bitLengthFuel 1100 n"

definition toDouble :: "int \<Rightarrow> int" where
  "toDouble n =
     (if n < 9007199254740992 then n
      else
        let e = bitLength n - 53;
            q = n div 2 ^ e;
            rest = n mod 2 ^ e;
            half = 2 ^ (e - 1)
        in (if rest > half \<or> (rest = half \<and> odd q) then q + 1 else q) * 2 ^ e)"

section \<open>Seeded random numbers and the word selector (second part of \<open>src/src/useAuth.ts\<close>)\<close>

text \<open>
  Strings are lists of characters; \<open>str.charCodeAt(i)\<close> is \<open>of_char\<close> of the \<open>i\<close>-th
  character. Isabelle characters are 8 bits wide, so the model covers the strings whose
  code units are below 256 (the seeds and words of the application are ASCII).

  \<open>hashSeed\<close>: \<open>h\<close> starts at 2166136261; each character does \<open>h ^= code\<close>, which leaves a
  signed 32-bit integer, and then adds five shifted copies of \<open>h\<close> to it, an addition of
  doubles that does not wrap (and is exact: six summands below \<open>2^31\<close> in absolute value).
  The result is \<open>h >>> 0\<close>.
\<close>

fun hashLoop :: "int \<Rightarrow> string \<Rightarrow> int" where
  "hashLoop h [] = h"
| "hashLoop h (ch # rest) =
     (let h1 = toInt32 h XOR of_char ch;
          h2 = h1 + (shl32 h1 1 + shl32 h1 4 + shl32 h1 7 + shl32 h1 8 + shl32 h1 24)
      in hashLoop h2 rest)"

definition hashSeed :: "string \<Rightarrow> int" where
  "hashSeed str = toUint32 (hashLoop 2166136261 str)"

text \<open>
  The reference of the specification: 32-bit FNV-1a, offset basis 2166136261, prime
  16777619, \<open>h = (h XOR c) * prime\<close> with unsigned 32-bit wrap-around for each character
  code \<open>c\<close>.
\<close>

definition fnv1a :: "string \<Rightarrow> 32 word" where
  "fnv1a str = foldl (\<lambda>h ch. (h XOR of_char ch) * 16777619) 2166136261 str"

text \<open>
  \<open>mulberry32(a)\<close> returns a closure over the number \<open>a\<close>. A call does \<open>a += 0x6d2b79f5\<close>
  (an addition of doubles, not reduced to 32 bits), mixes the 32-bit reduction of the new
  \<open>a\<close>, and returns \<open>u / 4294967296\<close> for an unsigned 32-bit \<open>u\<close>. The division is exact, so
  the model returns \<open>u\<close> itself, together with the new value of \<open>a\<close>.
\<close>

definition mulberry32 :: "int \<Rightarrow> 32 word \<times> int" where
  "mulberry32 a =
     (let a' = toDouble (a + 0x6d2b79f5);
          t0 = (word_of_int a' :: 32 word);
          t1 = (t0 XOR drop_bit 15 t0) * (t0 OR 1);
          t2 = t1 XOR (t1 + (t1 XOR drop_bit 7 t1) * (t1 OR 61))
      in (t2 XOR drop_bit 14 t2, a'))"

text \<open>
  \<open>Math.floor(rand() * n)\<close> for \<open>rand() = u / 4294967296\<close>. The product of the doubles is
  exact as long as \<open>n\<close> is below \<open>2^21\<close>, far above every array length and table size of
  this program.
\<close>

definition randIndex :: "32 word \<Rightarrow> nat \<Rightarrow> nat" where
  "randIndex u n = nat ((uint u * int n) div 4294967296)"





text \<open>
  The reference of the specification for \<open>pickWords\<close>. \<open>streamVal a k\<close> is the \<open>k\<close>-th value
  (from 0) of the mulberry32 stream started in state \<open>a\<close>. The shuffle visits the indices
  \<open>length - 1\<close> down to \<open>1\<close>; the visit of index \<open>i\<close> is draw number \<open>length - 1 - i\<close> and swaps
  position \<open>i\<close> with \<open>floor(rand() * (i + 1))\<close>.
\<close>

fun streamState :: "int \<Rightarrow> nat \<Rightarrow> int" where
  "streamState a 0 = a"
| "streamState a (Suc k) = snd (mulberry32 (streamState a k))"

definition streamVal :: "int \<Rightarrow> nat \<Rightarrow> 32 word" where
  "streamVal a k = fst (mulberry32 (streamState a k))"




section \<open>The grid generator (\<open>gridContainsWord\<close>, \<open>generatePuzzleGuaranteed\<close>)\<close>

text \<open>
  The two application files \<open>src/src/App.tsx\<close> and \<open>src/unnamed/part_003\<close> hold the same
  text for these two functions. A cell \<open>{r, c}\<close> is a pair of integers, row first; a grid
  is an array of rows of strings, each cell the empty string or one letter.
\<close>

type_synonym Cell = "int \<times> int"
type_synonym Grid = "string list list"

abbreviation GRID_SIZE :: int where
  "GRID_SIZE \<equiv> 10"

definition dirs :: "Cell list" where
  "dirs = [(0, 1), (0, -1), (1, 0), (-1, 0), (1, 1), (1, -1), (-1, 1), (-1, -1)]"

definition letters :: string where
  "letters = ''ABCDEFGHIJKLMNOPQRSTUVWXYZ''"

text \<open>\<open>grid[rr][cc]\<close> and \<open>grid[rr][cc] = v\<close>, used by the generator after its bounds checks.\<close>

definition cellAt :: "Grid \<Rightarrow> int \<Rightarrow> int \<Rightarrow> string" where
  "cellAt grid rr cc = grid ! nat rr ! nat cc"

definition setCell :: "Grid \<Rightarrow> int \<Rightarrow> int \<Rightarrow> string \<Rightarrow> Grid" where
  "setCell grid rr cc v = grid[nat rr := (grid ! nat rr)[nat cc := v]]"

text \<open>
  The inner loop of \<open>gridContainsWord\<close> over \<open>i = 0 .. word.length - 1\<close>, carrying
  \<open>(okF, okR)\<close>; a position outside the grid clears both flags and leaves the loop.
\<close>

fun scanWord ::
  "Grid \<Rightarrow> string \<Rightarrow> string \<Rightarrow> int \<Rightarrow> int \<Rightarrow> Cell \<Rightarrow> nat list \<Rightarrow> bool \<times> bool \<Rightarrow> bool \<times> bool"
where
  "scanWord grid word rv r c d [] ok = ok"
| "scanWord grid word rv r c d (i # rest) (okF, okR) =
     (let rr = r + fst d * int i;
          cc = c + snd d * int i
      in if rr < 0 \<or> rr \<ge> GRID_SIZE \<or> cc < 0 \<or> cc \<ge> GRID_SIZE then (False, False)
         else scanWord grid word rv r c d rest
                (okF \<and> cellAt grid rr cc = [word ! i], okR \<and> cellAt grid rr cc = [rv ! i]))"

definition gridContainsWord :: "Grid \<Rightarrow> string \<Rightarrow> bool" where
  "gridContainsWord grid word =
     (let rv = rev word
      in list_ex (\<lambda>r. list_ex (\<lambda>c. list_ex (\<lambda>d.
           (let (okF, okR) = scanWord grid word rv (int r) (int c) d [0..<length word] (True, True)
            in okF \<or> okR)) dirs) [0..<10]) [0..<10])"

text \<open>
  The placement test of \<open>generatePuzzleGuaranteed\<close> (the loop that computes \<open>ok\<close>) and the
  loop that writes the letters of a placed word.
\<close>

fun canPlace :: "Grid \<Rightarrow> string \<Rightarrow> int \<Rightarrow> int \<Rightarrow> Cell \<Rightarrow> nat list \<Rightarrow> bool" where
  "canPlace grid w r c d [] = True"
| "canPlace grid w r c d (i # rest) =
     (let rr = r + fst d * int i;
          cc = c + snd d * int i
      in if rr < 0 \<or> rr \<ge> GRID_SIZE \<or> cc < 0 \<or> cc \<ge> GRID_SIZE
            \<or> (cellAt grid rr cc \<noteq> [] \<and> cellAt grid rr cc \<noteq> [w ! i])
         then False
         else canPlace grid w r c d rest)"

fun writeWord :: "Grid \<Rightarrow> string \<Rightarrow> int \<Rightarrow> int \<Rightarrow> Cell \<Rightarrow> nat list \<Rightarrow> Grid" where
  "writeWord grid w r c d [] = grid"
| "writeWord grid w r c d (i # rest) =
     writeWord (setCell grid (r + fst d * int i) (c + snd d * int i) [w ! i]) w r c d rest"

text \<open>
  The closure \<open>rng\<close> is a step function \<open>rng\<close> on a state: a call returns the numerator
  \<open>u\<close> of the value \<open>u / 4294967296\<close> and the next state. The loop
  \<open>for (t = 0; t < 600 && !placed; t++)\<close> is \<open>tryPlace\<close>, its first argument the number of
  tries left; the result is the grid with the word written, or \<open>None\<close> when no try fitted.
\<close>

fun tryPlace ::
  "('s \<Rightarrow> 32 word \<times> 's) \<Rightarrow> nat \<Rightarrow> 's \<Rightarrow> Grid \<Rightarrow> string \<Rightarrow> Grid option \<times> 's"
where
  "tryPlace rng 0 s grid w = (None, s)"
| "tryPlace rng (Suc n) s grid w =
     (let (u1, s1) = rng s;
          d = dirs ! randIndex u1 (length dirs);
          (u2, s2) = rng s1;
          r = int (randIndex u2 10);
          (u3, s3) = rng s2;
          c = int (randIndex u3 10)
      in if canPlace grid w r c d [0..<length w]
         then (Some (writeWord grid w r c d [0..<length w]), s3)
         else tryPlace rng n s3 grid w)"

text \<open>\<open>for (const w of words)\<close>: \<open>None\<close> is \<open>fail = true\<close>.\<close>

fun placeWords ::
  "('s \<Rightarrow> 32 word \<times> 's) \<Rightarrow> 's \<Rightarrow> Grid \<Rightarrow> string list \<Rightarrow> Grid option \<times> 's"
where
  "placeWords rng s grid [] = (Some grid, s)"
| "placeWords rng s grid (w # rest) =
     (case tryPlace rng 600 s grid w of
        (None, s') \<Rightarrow> (None, s')
      | (Some grid', s') \<Rightarrow> placeWords rng s' grid' rest)"

text \<open>The two loops that fill the cells still empty, row by row.\<close>

definition allCells :: "(nat \<times> nat) list" where
  "allCells = concat (map (\<lambda>r. map (\<lambda>c. (r, c)) [0..<10]) [0..<10])"

fun fillCells ::
  "('s \<Rightarrow> 32 word \<times> 's) \<Rightarrow> 's \<Rightarrow> Grid \<Rightarrow> (nat \<times> nat) list \<Rightarrow> Grid \<times> 's"
where
  "fillCells rng s grid [] = (grid, s)"
| "fillCells rng s grid ((r, c) # rest) =
     (if cellAt grid (int r) (int c) = []
      then (let (u, s') = rng s
            in fillCells rng s' (setCell grid (int r) (int c) [letters ! randIndex u (length letters)]) rest)
      else fillCells rng s grid rest)"

definition emptyGrid :: Grid where
  "emptyGrid = replicate 10 (replicate 10 [])"

definition sentinelGrid :: Grid where
  "sentinelGrid = replicate 10 (replicate 10 ''X'')"

text \<open>One pass of the loop \<open>for (a = 0; a < 40; a++)\<close>: \<open>None\<close> is \<open>continue\<close>.\<close>

definition attempt ::
  "('s \<Rightarrow> 32 word \<times> 's) \<Rightarrow> 's \<Rightarrow> string list \<Rightarrow> Grid option \<times> 's"
where
  "attempt rng s words =
     (case placeWords rng s emptyGrid words of
        (None, s') \<Rightarrow> (None, s')
      | (Some grid, s') \<Rightarrow>
          (let (grid', s'') = fillCells rng s' grid allCells
           in if list_all (gridContainsWord grid') words then (Some grid', s'') else (None, s'')))"

fun attempts ::
  "('s \<Rightarrow> 32 word \<times> 's) \<Rightarrow> nat \<Rightarrow> 's \<Rightarrow> string list \<Rightarrow> Grid \<times> 's"
where
  "attempts rng 0 s words = (sentinelGrid, s)"
| "attempts rng (Suc n) s words =
     (case attempt rng s words of
        (Some grid, s') \<Rightarrow> (grid, s')
      | (None, s') \<Rightarrow> attempts rng n s' words)"

text \<open>
  Modelled from the spec: \<open>createSeededRandom\<close> of \<open>./utils/seededRandom\<close>, which is not
  among the source files. The specification gives \<open>stream(hash(seed))\<close>: the hash is 32-bit
  FNV-1a, and a call of the stream does \<open>a = a + 0x6d2b79f5 (mod 2^32)\<close>, \<open>t = a\<close>,
  \<open>t = (t XOR (t >>> 15)) * (t OR 1)\<close>, \<open>t = t XOR (t + (t XOR (t >>> 7)) * (t OR 61))\<close>, all
  modulo \<open>2^32\<close>, and returns \<open>(t XOR (t >>> 14)) / 4294967296\<close>.
\<close>

definition createSeededRandom :: "string \<Rightarrow> 32 word" where
  "createSeededRandom seed = fnv1a seed"

definition streamNext :: "32 word \<Rightarrow> 32 word \<times> 32 word" where
  "streamNext a =
     (let a' = a + 0x6d2b79f5;
          t0 = a';
          t1 = (t0 XOR drop_bit 15 t0) * (t0 OR 1);
          t2 = t1 XOR (t1 + (t1 XOR drop_bit 7 t1) * (t1 OR 61))
      in (t2 XOR drop_bit 14 t2, a'))"

definition generatePuzzleGuaranteed :: "string list \<Rightarrow> string \<Rightarrow> Grid" where
  "generatePuzzleGuaranteed words seed =
     fst (attempts streamNext 40 (createSeededRandom seed) words)"

text \<open>
  The findability property in words: some start cell of the grid and some of the eight
  directions, such that the \<open>length w\<close> cells from there along the direction are all inside
  the grid and hold the letters of \<open>w\<close>, or the letters of \<open>w\<close> reversed.
\<close>

definition lettersAlong :: "Grid \<Rightarrow> int \<Rightarrow> int \<Rightarrow> Cell \<Rightarrow> nat \<Rightarrow> string list" where
  "lettersAlong grid r c d n =
     map (\<lambda>i. cellAt grid (r + fst d * int i) (c + snd d * int i)) [0..<n]"

definition staysInside :: "int \<Rightarrow> int \<Rightarrow> Cell \<Rightarrow> nat \<Rightarrow> bool" where
  "staysInside r c d n =
     (\<forall>i \<in> {0..<n}. 0 \<le> r + fst d * int i \<and> r + fst d * int i < GRID_SIZE
                  \<and> 0 \<le> c + snd d * int i \<and> c + snd d * int i < GRID_SIZE)"

definition findable :: "Grid \<Rightarrow> string \<Rightarrow> bool" where
  "findable grid w =
     (\<exists>r \<in> {0..<10}. \<exists>c \<in> {0..<10}. \<exists>d \<in> set dirs.
        staysInside (int r) (int c) d (length w)
        \<and> (lettersAlong grid (int r) (int c) d (length w) = map (\<lambda>ch. [ch]) w
           \<or> lettersAlong grid (int r) (int c) d (length w) = map (\<lambda>ch. [ch]) (rev w)))"

text \<open>
  What one pass of the inner loop of \<open>gridContainsWord\<close> asks of position \<open>i\<close>: the cell is
  inside the grid and holds the \<open>i\<close>-th letter.
\<close>

definition hit :: "Grid \<Rightarrow> string \<Rightarrow> int \<Rightarrow> int \<Rightarrow> Cell \<Rightarrow> nat \<Rightarrow> bool" where
  "hit grid w r c d i =
     (0 \<le> r + fst d * int i \<and> r + fst d * int i < 10 \<and> 0 \<le> c + snd d * int i \<and> c + snd d * int i < 10
      \<and> cellAt grid (r + fst d * int i) (c + snd d * int i) = [w ! i])"

text \<open>
  An observer for the closure: \<open>logged rng\<close> behaves as \<open>rng\<close> and appends every value it
  hands out to a list. \<open>advance rng s k\<close> is the state after \<open>k\<close> calls from \<open>s\<close>, and
  \<open>draws rng s k\<close> the first \<open>k\<close> values of the stream that starts in \<open>s\<close>, the \<open>i\<close>-th one
  at position \<open>i\<close>. \<open>follows\<close> relates a run with the observer to the same run without it:
  same result, and the log grew by exactly the values of the calls made.
\<close>

definition logged :: "('s \<Rightarrow> 32 word \<times> 's) \<Rightarrow> 's \<times> 32 word list \<Rightarrow> 32 word \<times> ('s \<times> 32 word list)" where
  "logged rng sl = (let (u, s') = rng (fst sl) in (u, (s', snd sl @ [u])))"

fun advance :: "('s \<Rightarrow> 32 word \<times> 's) \<Rightarrow> 's \<Rightarrow> nat \<Rightarrow> 's" where
  "advance rng s 0 = s"
| "advance rng s (Suc k) = advance rng (snd (rng s)) k"

definition draws :: "('s \<Rightarrow> 32 word \<times> 's) \<Rightarrow> 's \<Rightarrow> nat \<Rightarrow> 32 word list" where
  "draws rng s k = map (\<lambda>i. fst (rng (advance rng s i))) [0..<k]"

definition follows ::
  "('s \<Rightarrow> 32 word \<times> 's) \<Rightarrow> 's \<Rightarrow> 32 word list \<Rightarrow> 'r \<times> ('s \<times> 32 word list) \<Rightarrow> 'r \<times> 's \<Rightarrow> bool" where
  "follows rng s l X Y =
     (fst X = fst Y \<and> (\<exists>k. snd Y = advance rng s k \<and> snd X = (advance rng s k, l @ draws rng s k)))"

section \<open>The selection engine (\<open>onDown\<close>, \<open>onMove\<close>, \<open>onUp\<close>)\<close>

text \<open>
  The pointer handlers exist in two versions. The functions with suffix \<open>A\<close> are those of
  \<open>src/src/App.tsx\<close>, the functions with suffix \<open>B\<close> those of \<open>src/unnamed/part_003\<close>.
  Screen coordinates are doubles, modelled as reals. The refs and the React state the
  handlers read and write are the fields of one record; a handler sees the state the
  previous handler left. The visual list \<open>lockedLines\<close>, the sounds and the vibration are
  left out. \<open>grid\<close> and \<open>words\<close> are arguments, and so are the rectangle of the grid element
  (\<open>rect()\<close>) and, for version B, the hit test \<open>cellFromClient\<close> of the browser.
\<close>

datatype Page = Home | Packs | Game

datatype jsError = TypeError

type_synonym Vec = "real \<times> real"

record rect =
  rleft :: real
  rtop :: real
  rwidth :: real
  rheight :: real

record gesture =
  page :: Page
  gameReady :: bool
  packComplete :: bool
  found :: "string set"
  liveLine :: "(Vec \<times> Vec) option"
  startCell :: "Cell option"
  dirLock :: "Cell option"
  startPoint :: "Vec option"
  lastClient :: "Vec option"

definition sign :: "real \<Rightarrow> int" where
  "sign x = (if x > 0 then 1 else if x < 0 then -1 else 0)"

definition center :: "rect \<Rightarrow> Cell \<Rightarrow> Vec" where
  "center rc cell =
     ((of_int (snd cell) + 0.5) * (rwidth rc / 10), (of_int (fst cell) + 0.5) * (rheight rc / 10))"

definition dist :: "Vec \<Rightarrow> Vec \<Rightarrow> real" where
  "dist a b =
     (let dx = fst a - fst b; dy = snd a - snd b in sqrt (dx * dx + dy * dy))"

text \<open>The array \<open>cells\<close> of \<open>onUp\<close>: \<open>n\<close> cells from \<open>start\<close> in steps of \<open>d\<close>.\<close>

definition cellsFrom :: "Cell \<Rightarrow> Cell \<Rightarrow> nat \<Rightarrow> Cell list" where
  "cellsFrom start d n =
     map (\<lambda>i. (fst start + fst d * int i, snd start + snd d * int i)) [0..<n]"

definition offGrid :: "Cell \<Rightarrow> bool" where
  "offGrid cell =
     (fst cell < 0 \<or> fst cell \<ge> GRID_SIZE \<or> snd cell < 0 \<or> snd cell \<ge> GRID_SIZE)"

text \<open>
  \<open>cells.map((c) => grid[c.r][c.c]).join("")\<close>. Reading a row that does not exist gives
  \<open>undefined\<close>, and indexing that throws a TypeError (\<open>None\<close>); reading a column that does not
  exist gives \<open>undefined\<close>, which \<open>join\<close> writes as the empty string.
\<close>

definition readCell :: "Grid \<Rightarrow> Cell \<Rightarrow> string option" where
  "readCell grid cell =
     (if fst cell < 0 \<or> fst cell \<ge> int (length grid) then None
      else let row = grid ! nat (fst cell)
           in if snd cell < 0 \<or> snd cell \<ge> int (length row) then Some []
              else Some (row ! nat (snd cell)))"

definition readCells :: "Grid \<Rightarrow> Cell list \<Rightarrow> string option" where
  "readCells grid cells =
     (if list_ex (\<lambda>cell. readCell grid cell = None) cells then None
      else Some (concat (map (\<lambda>cell. the (readCell grid cell)) cells)))"

subsection \<open>Version A (\<open>src/src/App.tsx\<close>)\<close>

text \<open>
  \<open>onDown\<close> resolves the pointer position to a cell by the rectangle of the grid element,
  which has positive width and height when the grid is shown.
\<close>

definition onDownA :: "rect \<Rightarrow> gesture \<Rightarrow> Vec \<Rightarrow> gesture" where
  "onDownA rc s e =
     (if page s \<noteq> Game then s
      else if \<not> gameReady s then s
      else if packComplete s then s
      else
        let rr = \<lfloor>((snd e - rtop rc) / rheight rc) * 10\<rfloor>;
            cc = \<lfloor>((fst e - rleft rc) / rwidth rc) * 10\<rfloor>
        in if rr < 0 \<or> rr \<ge> GRID_SIZE \<or> cc < 0 \<or> cc \<ge> GRID_SIZE then s
           else s\<lparr>startCell := Some (rr, cc), startPoint := Some e, dirLock := None\<rparr>)"

definition onMoveA :: "rect \<Rightarrow> gesture \<Rightarrow> Vec \<Rightarrow> gesture" where
  "onMoveA rc s e =
     (if page s \<noteq> Game then s
      else if \<not> gameReady s then s
      else
        (case startCell s of
           None \<Rightarrow> s
         | Some sc \<Rightarrow>
             if packComplete s then s
             else
               let live = Some (center rc sc, (fst e - rleft rc, snd e - rtop rc))
               in (case (dirLock s, startPoint s) of
                     (None, Some sp) \<Rightarrow>
                       let dx = fst e - fst sp;
                           dy = snd e - snd sp;
                           adx = \<bar>dx\<bar>;
                           ady = \<bar>dy\<bar>
                       in if adx < 14 \<and> ady < 14 then s\<lparr>liveLine := live\<rparr>
                          else
                            let mn = min adx ady;
                                mx = max adx ady
                            in if mn / mx \<ge> 0.58
                               then s\<lparr>dirLock := Some (sign dy, sign dx), liveLine := live\<rparr>
                               else if ady \<ge> adx * 2.6
                               then s\<lparr>dirLock := Some (sign dy, 0), liveLine := live\<rparr>
                               else if adx \<ge> ady * 2.6
                               then s\<lparr>dirLock := Some (0, sign dx), liveLine := live\<rparr>
                               else s\<lparr>liveLine := live\<rparr>
                   | _ \<Rightarrow> s\<lparr>liveLine := live\<rparr>)))"

text \<open>
  The test "finger near either end" of \<open>onUp\<close>: the last pointer position (the end of the
  live line, or the centre of the last cell when there is no live line) is farther than
  \<open>END_TOLERANCE\<close> from the centres of both the first and the last cell.
\<close>

definition farFromEndsA :: "rect \<Rightarrow> (Vec \<times> Vec) option \<Rightarrow> Cell list \<Rightarrow> bool" where
  "farFromEndsA rc live cells =
     (let fingerPos = (case live of Some l \<Rightarrow> snd l | None \<Rightarrow> center rc (last cells));
          startCenter = center rc (hd cells);
          endCenter = center rc (last cells);
          CELL_RADIUS = rwidth rc / 10 / 2;
          END_TOLERANCE = CELL_RADIUS * 0.99;
          dStart = dist fingerPos startCenter;
          dEnd = dist fingerPos endCenter
      in min dStart dEnd > END_TOLERANCE)"

text \<open>
  The loop \<open>for (const w of words)\<close> of \<open>onUp\<close>. The result is the word marked found, or
  \<open>None\<close> when the loop ends without a match. An empty word that is not yet found passes
  the bounds test and the comparison, and then \<open>center(cells[0])\<close> reads a field of
  \<open>undefined\<close>: a TypeError.
\<close>

fun matchLoopA ::
  "Grid \<Rightarrow> rect \<Rightarrow> string set \<Rightarrow> (Vec \<times> Vec) option \<Rightarrow> Cell \<Rightarrow> Cell \<Rightarrow> string list
     \<Rightarrow> jsError + string option"
where
  "matchLoopA grid rc fnd live start d [] = Inr None"
| "matchLoopA grid rc fnd live start d (w # rest) =
     (if w \<in> fnd then matchLoopA grid rc fnd live start d rest
      else
        let cells = cellsFrom start d (length w)
        in if list_ex offGrid cells then matchLoopA grid rc fnd live start d rest
           else
             (case readCells grid cells of
                None \<Rightarrow> Inl TypeError
              | Some text \<Rightarrow>
                  if text \<noteq> w \<and> rev text \<noteq> w then matchLoopA grid rc fnd live start d rest
                  else if cells = [] then Inl TypeError
                  else if farFromEndsA rc live cells
                  then matchLoopA grid rc fnd live start d rest
                  else Inr (Some w)))"

text \<open>The \<open>finally\<close> block of \<open>onUp\<close>.\<close>

definition clearA :: "gesture \<Rightarrow> gesture" where
  "clearA s = s\<lparr>liveLine := None, startCell := None, startPoint := None, dirLock := None\<rparr>"

definition onUpA :: "Grid \<Rightarrow> string list \<Rightarrow> rect \<Rightarrow> gesture \<Rightarrow> jsError + gesture" where
  "onUpA grid words rc s =
     (if page s \<noteq> Game then Inr (clearA s)
      else if \<not> gameReady s then Inr (clearA s)
      else
        (case (startCell s, dirLock s) of
           (Some start, Some d) \<Rightarrow>
             if packComplete s then Inr (clearA s)
             else
               (case matchLoopA grid rc (found s) (liveLine s) start d words of
                  Inl err \<Rightarrow> Inl err
                | Inr None \<Rightarrow> Inr (clearA s)
                | Inr (Some w) \<Rightarrow> Inr (clearA (s\<lparr>found := insert w (found s)\<rparr>)))
         | _ \<Rightarrow> Inr (clearA s)))"

subsection \<open>Version B (\<open>src/unnamed/part_003\<close>)\<close>

definition onDownB :: "(real \<Rightarrow> real \<Rightarrow> Cell option) \<Rightarrow> rect \<Rightarrow> gesture \<Rightarrow> Vec \<Rightarrow> gesture" where
  "onDownB cellFromClient rc s e =
     (if page s \<noteq> Game then s
      else if \<not> gameReady s then s
      else if packComplete s then s
      else
        (case cellFromClient (fst e) (snd e) of
           None \<Rightarrow> s
         | Some c \<Rightarrow>
             s\<lparr>startCell := Some c, startPoint := Some e, lastClient := Some e, dirLock := None,
               liveLine := Some (center rc c, (fst e - rleft rc, snd e - rtop rc))\<rparr>))"

definition onMoveB :: "rect \<Rightarrow> gesture \<Rightarrow> Vec \<Rightarrow> gesture" where
  "onMoveB rc s0 e =
     (if page s0 \<noteq> Game then s0
      else if \<not> gameReady s0 then s0
      else
        (case startCell s0 of
           None \<Rightarrow> s0
         | Some sc \<Rightarrow>
             if packComplete s0 then s0
             else
               let s = s0\<lparr>lastClient := Some e\<rparr>;
                   live = Some (center rc sc, (fst e - rleft rc, snd e - rtop rc))
               in (case (dirLock s, startPoint s) of
                     (None, Some sp) \<Rightarrow>
                       let dx = fst e - fst sp;
                           dy = snd e - snd sp;
                           adx = \<bar>dx\<bar>;
                           ady = \<bar>dy\<bar>
                       in if adx < 10 \<and> ady < 10 then s\<lparr>liveLine := live\<rparr>
                          else
                            let mn = min adx ady;
                                mx = max adx ady
                            in if mn / mx \<ge> 0.38
                               then s\<lparr>dirLock := Some (sign dy, sign dx), liveLine := live\<rparr>
                               else if ady \<ge> adx * 2.4
                               then s\<lparr>dirLock := Some (sign dy, 0), liveLine := live\<rparr>
                               else if adx \<ge> ady * 2.4
                               then s\<lparr>dirLock := Some (0, sign dx), liveLine := live\<rparr>
                               else s\<lparr>liveLine := live\<rparr>
                   | _ \<Rightarrow> s\<lparr>liveLine := live\<rparr>)))"

text \<open>
  The direction \<open>(stepR, stepC)\<close> that \<open>onUp\<close> of version B derives from the drag; \<open>None\<close>
  is the early return for a tiny drag.
\<close>

definition releaseStep :: "Vec option \<Rightarrow> Vec \<Rightarrow> Cell option \<Rightarrow> Cell \<Rightarrow> Cell option" where
  "releaseStep sp lift liftCell start =
     (case sp of
        Some p \<Rightarrow>
          let dx = fst lift - fst p;
              dy = snd lift - snd p;
              adx = \<bar>dx\<bar>;
              ady = \<bar>dy\<bar>
          in if adx < 8 \<and> ady < 8 then None
             else if ady > adx * 2 then Some (sign dy, 0)
             else if adx > ady * 2 then Some (0, sign dx)
             else Some (sign dy, sign dx)
      | None \<Rightarrow>
          (case liftCell of
             Some lc \<Rightarrow> Some (sgn (fst lc - fst start), sgn (snd lc - snd start))
           | None \<Rightarrow> Some (0, 0)))"

definition liftCloseTo :: "Cell option \<Rightarrow> Cell \<Rightarrow> int \<Rightarrow> bool" where
  "liftCloseTo liftCell endCell tol =
     (case liftCell of
        None \<Rightarrow> True
      | Some lc \<Rightarrow> max \<bar>fst lc - fst endCell\<bar> \<bar>snd lc - snd endCell\<bar> \<le> tol)"

text \<open>The cell \<open>end\<close> of the loop: \<open>start + step * (w.length - 1)\<close>.\<close>

definition impliedEnd :: "Cell \<Rightarrow> Cell \<Rightarrow> string \<Rightarrow> Cell" where
  "impliedEnd start step w =
     (fst start + fst step * (int (length w) - 1), snd start + snd step * (int (length w) - 1))"

abbreviation END_TOL :: int where
  "END_TOL \<equiv> 1"

fun matchLoopB ::
  "Grid \<Rightarrow> string set \<Rightarrow> Cell option \<Rightarrow> Cell \<Rightarrow> Cell \<Rightarrow> string list \<Rightarrow> jsError + string option"
where
  "matchLoopB grid fnd liftCell start step [] = Inr None"
| "matchLoopB grid fnd liftCell start step (w # rest) =
     (if w \<in> fnd then matchLoopB grid fnd liftCell start step rest
      else
        let endCell = impliedEnd start step w
        in if offGrid endCell then matchLoopB grid fnd liftCell start step rest
           else if \<not> liftCloseTo liftCell endCell END_TOL
           then matchLoopB grid fnd liftCell start step rest
           else
             let cells = cellsFrom start step (length w)
             in (case (readCells grid cells, readCells grid (rev cells)) of
                   (Some forward, Some backward) \<Rightarrow>
                     if forward \<noteq> w \<and> backward \<noteq> w
                     then matchLoopB grid fnd liftCell start step rest
                     else Inr (Some w)
                 | _ \<Rightarrow> Inl TypeError))"

definition clearB :: "gesture \<Rightarrow> gesture" where
  "clearB s =
     s\<lparr>liveLine := None, startCell := None, startPoint := None, lastClient := None,
       dirLock := None\<rparr>"

definition onUpB ::
  "Grid \<Rightarrow> string list \<Rightarrow> (real \<Rightarrow> real \<Rightarrow> Cell option) \<Rightarrow> gesture \<Rightarrow> jsError + gesture"
where
  "onUpB grid words cellFromClient s =
     (if page s \<noteq> Game then Inr (clearB s)
      else if \<not> gameReady s then Inr (clearB s)
      else if packComplete s then Inr (clearB s)
      else
        (case (startCell s, lastClient s) of
           (Some start, Some lift) \<Rightarrow>
             let liftCell = cellFromClient (fst lift) (snd lift)
             in (case releaseStep (startPoint s) lift liftCell start of
                   None \<Rightarrow> Inr (clearB s)
                 | Some step \<Rightarrow>
                     if fst step = 0 \<and> snd step = 0 then Inr (clearB s)
                     else
                       (case matchLoopB grid (found s) liftCell start step words of
                          Inl err \<Rightarrow> Inl err
                        | Inr None \<Rightarrow> Inr (clearB s)
                        | Inr (Some w) \<Rightarrow> Inr (clearB (s\<lparr>found := insert w (found s)\<rparr>))))
         | _ \<Rightarrow> Inr (clearB s)))"

subsection \<open>A concrete board for the examples\<close>

text \<open>
  A grid of \<open>X\<close> with \<open>CAT\<close> written eastward from row 2, column 1; a grid element of 300 by
  300 pixels at the origin, so that a cell is 30 pixels wide; the hit test that this
  layout gives; and the state of a running game with no gesture in progress.
\<close>

definition catGrid :: Grid where
  "catGrid =
     (replicate 10 (replicate 10 ''X''))
       [2 := [''X'', ''C'', ''A'', ''T'', ''X'', ''X'', ''X'', ''X'', ''X'', ''X'']]"

definition board :: rect where
  "board = \<lparr>rleft = 0, rtop = 0, rwidth = 300, rheight = 300\<rparr>"

definition boardCell :: "real \<Rightarrow> real \<Rightarrow> Cell option" where
  "boardCell x y =
     (if 0 \<le> x \<and> x < 300 \<and> 0 \<le> y \<and> y < 300 then Some (\<lfloor>y / 30\<rfloor>, \<lfloor>x / 30\<rfloor>) else None)"

definition idle :: gesture where
  "idle =
     \<lparr>page = Game, gameReady = True, packComplete = False, found = {}, liveLine = None,
      startCell = None, dirLock = None, startPoint = None, lastClient = None\<rparr>"

text \<open>
  Gestures on that board. In version A: from the centre of cell (2,1) east to the centre of
  cell (2,3); from the same start north to cell (0,1); and east to (2,3), then back to the
  start. In version B: 15 pixels north, then east to cell (2,3); 9 pixels east from the
  right part of cell (2,1); and from cell (2,1) east to a point right of the grid.
\<close>

definition eastA :: gesture where
  "eastA = onMoveA board (onDownA board idle (45, 75)) (105, 75)"

definition northA :: gesture where
  "northA = onMoveA board (onDownA board idle (45, 75)) (45, 15)"


definition northThenEastB :: gesture where
  "northThenEastB =
     onMoveB board (onMoveB board (onDownB boardCell board idle (45, 75)) (45, 60)) (105, 75)"


definition outsideB :: gesture where
  "outsideB = onMoveB board (onDownB boardCell board idle (45, 75)) (310, 75)"

subsection \<open>The rules of the specification\<close>



text \<open>
  The letters along a path spell a word: read in path order or reversed. Version A
  reverses the text it read, version B reads the cells in reverse order.
\<close>

definition spellsA :: "Grid \<Rightarrow> Cell list \<Rightarrow> string \<Rightarrow> bool" where
  "spellsA grid cells w =
     (readCells grid cells = Some w \<or> readCells grid cells = Some (rev w))"

definition spellsB :: "Grid \<Rightarrow> Cell list \<Rightarrow> string \<Rightarrow> bool" where
  "spellsB grid cells w =
     (readCells grid cells = Some w \<or> readCells grid (rev cells) = Some w)"

text \<open>
  The pointer position that \<open>onUp\<close> of version A measures, and its tolerance in words: the
  position is within 0.99 times half a cell width of the centre of the first or of the
  last cell of the path.
\<close>

definition fingerA :: "rect \<Rightarrow> (Vec \<times> Vec) option \<Rightarrow> Cell list \<Rightarrow> Vec" where
  "fingerA rc live cells = (case live of Some l \<Rightarrow> snd l | None \<Rightarrow> center rc (last cells))"

definition nearAnEndA :: "rect \<Rightarrow> (Vec \<times> Vec) option \<Rightarrow> Cell list \<Rightarrow> bool" where
  "nearAnEndA rc live cells =
     (dist (fingerA rc live cells) (center rc (hd cells)) \<le> rwidth rc / 10 / 2 * 0.99
      \<or> dist (fingerA rc live cells) (center rc (last cells)) \<le> rwidth rc / 10 / 2 * 0.99)"

section \<open>The seed hash is FNV-1a\<close>

lemma word_toInt32: "(word_of_int (toInt32 x) :: 32 word) = word_of_int x"
  by (simp add: toInt32_def)

lemma word_shl32: "(word_of_int (shl32 h k) :: 32 word) = word_of_int h * 2 ^ k"
  by (simp add: shl32_def word_toInt32 push_bit_eq_mult)

lemma word_of_char: "(word_of_int (of_char ch) :: 32 word) = of_char ch"
  by (simp add: of_char_def)

lemma word_xor_int: "(word_of_int (x XOR y) :: 32 word) = word_of_int x XOR word_of_int y"
  by (simp add: of_int_xor_eq)

lemma hashLoop_step:
  "(word_of_int
      (let h1 = toInt32 h XOR of_char ch
       in h1 + (shl32 h1 1 + shl32 h1 4 + shl32 h1 7 + shl32 h1 8 + shl32 h1 24)) :: 32 word)
     = (word_of_int h XOR of_char ch) * 16777619"
  by (simp add: Let_def word_shl32 word_xor_int word_toInt32 word_of_char algebra_simps)

lemma hashLoop_fnv:
  "(word_of_int (hashLoop h str) :: 32 word)
     = foldl (\<lambda>h ch. (h XOR of_char ch) * 16777619) (word_of_int h) str"
proof (induction str arbitrary: h)
  case Nil
  show ?case by simp
next
  case (Cons ch rest)
  show ?case using Cons.IH hashLoop_step [of h ch] by (simp add: Let_def)
qed

lemma hashSeed_fnv: "hashSeed str = uint (fnv1a str)"
proof -
  have "hashSeed str = uint (word_of_int (hashLoop 2166136261 str) :: 32 word)"
    by (simp add: hashSeed_def toUint32_def uint_word_of_int)
  then show ?thesis by (simp add: hashLoop_fnv fnv1a_def)
qed

lemma hashSeed_test: "hashSeed ''test'' = 2949673445"
  by (simp add: hashSeed_def toUint32_def toInt32_def shl32_def)

text \<open>
  C2. For every seed string the seed hash \<open>hashSeed\<close>, computed with JavaScript's shifts and
  non-wrapping additions, equals the 32-bit FNV-1a reference (offset basis 2166136261, prime
  16777619, unsigned wrap-around), and the hash of the string "test" is 2949673445.
\<close>

theorem C2_hashSeed_is_fnv1a:
  "hashSeed str = uint (fnv1a str) \<and> hashSeed ''test'' = 2949673445"
  using hashSeed_fnv [of str] hashSeed_test by simp

theorem C2_hashSeed_is_fnv1a_witness:
  "hashSeed ''test'' = uint (fnv1a ''test'') \<and> hashSeed ''test'' = 2949673445
   \<and> uint (fnv1a ''test'') = 2949673445"
  using C2_hashSeed_is_fnv1a [of "''test''"] by simp

section \<open>The word selector\<close>

lemma streamState_shift: "streamState (snd (mulberry32 a)) k = streamState a (Suc k)"
  by (induction k) simp_all




lemma randIndex_less: "0 < n \<Longrightarrow> randIndex u n < n"
proof -
  assume n: "0 < n"
  have "uint u < 4294967296" using uint_bounded [of u] by simp
  then have "uint u * int n < 4294967296 * int n" using n by simp
  then have "(uint u * int n) div 4294967296 < int n"
    by (simp add: div_less_iff_less_mult)
  moreover have "0 \<le> (uint u * int n) div 4294967296"
    by (simp add: pos_imp_zdiv_nonneg_iff)
  ultimately show ?thesis by (simp add: randIndex_def)
qed









text \<open>
  The closure of \<open>mulberry32\<close> does not reduce its state to 32 bits, the stream of the
  specification does. The values agree as long as the state stays below \<open>2^53\<close>, where the
  additions of doubles are exact: for the first four million draws after a 32-bit seed.
\<close>

lemma mulberry32_below_2_53:
  "a + 0x6d2b79f5 < 9007199254740992 \<Longrightarrow>
   mulberry32 a = (fst (streamNext (word_of_int a)), a + 0x6d2b79f5)"
  by (simp add: mulberry32_def streamNext_def toDouble_def Let_def)

lemma snd_streamNext: "snd (streamNext a) = a + 0x6d2b79f5"
  by (simp add: streamNext_def Let_def)

lemma streamState_step:
  "a + 0x6d2b79f5 < 9007199254740992 \<Longrightarrow> streamState a (Suc k) = streamState (a + 0x6d2b79f5) k"
  using streamState_shift [of a k] mulberry32_below_2_53 [of a] by simp

lemma streamState_value:
  "0 \<le> a \<Longrightarrow> a + int k * 0x6d2b79f5 < 9007199254740992 \<Longrightarrow>
   streamState a k = a + int k * 0x6d2b79f5"
proof (induction k arbitrary: a)
  case 0
  show ?case by simp
next
  case (Suc k)
  have small: "a + 0x6d2b79f5 < 9007199254740992" using Suc.prems by simp
  have "streamState a (Suc k) = streamState (a + 0x6d2b79f5) k"
    by (rule streamState_step [OF small])
  also have "\<dots> = (a + 0x6d2b79f5) + int k * 0x6d2b79f5"
    using Suc.prems by (intro Suc.IH) (simp_all add: algebra_simps)
  finally show ?case by (simp add: algebra_simps)
qed

lemma streamState_word:
  "0 \<le> a \<Longrightarrow> a + int k * 0x6d2b79f5 < 9007199254740992 \<Longrightarrow>
   (word_of_int (streamState a k) :: 32 word) = advance streamNext (word_of_int a) k"
proof (induction k arbitrary: a)
  case 0
  show ?case by simp
next
  case (Suc k)
  have small: "a + 0x6d2b79f5 < 9007199254740992" using Suc.prems by simp
  have next_state: "(word_of_int (a + 0x6d2b79f5) :: 32 word) = snd (streamNext (word_of_int a))"
    by (simp add: snd_streamNext)
  have "(word_of_int (streamState a (Suc k)) :: 32 word)
      = word_of_int (streamState (a + 0x6d2b79f5) k)"
    by (simp only: streamState_step [OF small])
  also have "\<dots> = advance streamNext (word_of_int (a + 0x6d2b79f5)) k"
    using Suc.prems by (intro Suc.IH) (simp_all add: algebra_simps)
  also have "\<dots> = advance streamNext (snd (streamNext (word_of_int a))) k"
    by (simp only: next_state)
  also have "\<dots> = advance streamNext (word_of_int a) (Suc k)"
    by (simp only: advance.simps)
  finally show ?case .
qed

lemma streamVal_is_spec_stream:
  assumes "k < 4000000"
  shows "streamVal (uint (fnv1a seed)) k
           = fst (streamNext (advance streamNext (createSeededRandom seed) k))"
proof -
  let ?a = "uint (fnv1a seed)"
  have a: "0 \<le> ?a" "?a < 4294967296" using uint_bounded [of "fnv1a seed"] by simp_all
  have "int k * 0x6d2b79f5 \<le> 3999999 * 0x6d2b79f5" using assms by simp
  then have bound: "?a + int k * 0x6d2b79f5 < 9007199254740992 - 0x6d2b79f5" using a by simp
  then have bound': "?a + int k * 0x6d2b79f5 < 9007199254740992" by simp
  have st: "streamState ?a k = ?a + int k * 0x6d2b79f5"
    by (rule streamState_value [OF a(1) bound'])
  have w: "(word_of_int (streamState ?a k) :: 32 word) = advance streamNext (word_of_int ?a) k"
    by (rule streamState_word [OF a(1) bound'])
  have "streamState ?a k + 0x6d2b79f5 < 9007199254740992" using st bound by simp
  then have "streamVal ?a k = fst (streamNext (word_of_int (streamState ?a k)))"
    using mulberry32_below_2_53 [of "streamState ?a k"] by (simp add: streamVal_def)
  also have "\<dots> = fst (streamNext (advance streamNext (word_of_int ?a) k))"
    by (simp only: w)
  finally show ?thesis by (simp add: createSeededRandom_def)
qed



section \<open>The grid generator\<close>

subsection \<open>A word longer than the grid is never placed\<close>

lemma canPlace_inside:
  "canPlace grid w r c d js \<Longrightarrow> i \<in> set js \<Longrightarrow>
     0 \<le> r + fst d * int i \<and> r + fst d * int i < 10 \<and> 0 \<le> c + snd d * int i \<and> c + snd d * int i < 10"
  by (induction js) (auto simp: Let_def split: if_splits)

lemma dirs_step:
  "d \<in> set dirs \<Longrightarrow> (fst d = 1 \<or> fst d = -1 \<or> fst d = 0) \<and> (snd d = 1 \<or> snd d = -1 \<or> snd d = 0)
     \<and> (fst d \<noteq> 0 \<or> snd d \<noteq> 0)"
  by (auto simp: dirs_def)

lemma canPlace_long:
  assumes long: "10 < length w" and d: "d \<in> set dirs"
  shows "\<not> canPlace grid w r c d [0..<length w]"
proof
  assume ok: "canPlace grid w r c d [0..<length w]"
  have "0 \<in> set [0..<length w]" and "10 \<in> set [0..<length w]" using long by auto
  then have "0 \<le> r + fst d * int 0 \<and> r + fst d * int 0 < 10 \<and> 0 \<le> c + snd d * int 0 \<and> c + snd d * int 0 < 10"
    and "0 \<le> r + fst d * int 10 \<and> r + fst d * int 10 < 10 \<and> 0 \<le> c + snd d * int 10 \<and> c + snd d * int 10 < 10"
    using canPlace_inside [OF ok] by blast+
  then show False using dirs_step [OF d] by auto
qed

lemma dir_drawn: "dirs ! randIndex u (length dirs) \<in> set dirs"
  by (rule nth_mem) (simp add: randIndex_less dirs_def)

lemma tryPlace_long: "10 < length w \<Longrightarrow> fst (tryPlace rng n s grid w) = None"
proof (induction n arbitrary: s)
  case 0
  show ?case by simp
next
  case (Suc n)
  show ?case
    using Suc.IH [OF Suc.prems] canPlace_long [OF Suc.prems dir_drawn]
    by (simp add: Let_def split: prod.splits)
qed

lemma placeWords_long:
  "w \<in> set words \<Longrightarrow> 10 < length w \<Longrightarrow> fst (placeWords rng s grid words) = None"
proof (induction words arbitrary: s grid)
  case Nil
  then show ?case by simp
next
  case (Cons v rest)
  show ?case
  proof (cases "tryPlace rng 600 s grid v")
    case (Pair res s')
    show ?thesis
    proof (cases res)
      case None
      then show ?thesis using Pair by simp
    next
      case (Some grid')
      have "v \<noteq> w" using tryPlace_long [of v rng 600 s grid] Pair Some Cons.prems(2) by auto
      then have "w \<in> set rest" using Cons.prems(1) by simp
      then show ?thesis using Cons.IH [OF _ Cons.prems(2)] Pair Some by simp
    qed
  qed
qed

lemma attempt_long:
  "w \<in> set words \<Longrightarrow> 10 < length w \<Longrightarrow> fst (attempt rng s words) = None"
  using placeWords_long [of w words rng s emptyGrid]
  by (cases "placeWords rng s emptyGrid words") (simp add: attempt_def)

lemma attempts_long:
  "w \<in> set words \<Longrightarrow> 10 < length w \<Longrightarrow> fst (attempts rng n s words) = sentinelGrid"
proof (induction n arbitrary: s)
  case 0
  show ?case by simp
next
  case (Suc n)
  show ?case
    using attempt_long [OF Suc.prems, of rng s] Suc.IH [OF Suc.prems]
    by (cases "attempt rng s words") simp
qed

text \<open>
  C3. If the word list holds a word longer than the grid size 10, every attempt fails, from
  whatever state of the random stream it starts, and after the 40 attempts the call returns
  the sentinel: 10 rows of 10 cells, each \<open>X\<close>. No grid with that word missing is returned.
\<close>

theorem C3_long_word_gives_sentinel:
  "w \<in> set words \<Longrightarrow> 10 < length w \<Longrightarrow>
     generatePuzzleGuaranteed words seed = replicate 10 (replicate 10 ''X'')
     \<and> fst (attempt streamNext s words) = None"
  using attempts_long [of w words streamNext 40 "createSeededRandom seed"]
    attempt_long [of w words streamNext s]
  by (simp add: generatePuzzleGuaranteed_def sentinelGrid_def)

theorem C3_long_word_gives_sentinel_witness:
  "''ABCDEFGHIJK'' \<in> set [''CAT'', ''ABCDEFGHIJK''] \<and> 10 < length ''ABCDEFGHIJK''
   \<and> generatePuzzleGuaranteed [''CAT'', ''ABCDEFGHIJK''] ''s'' = replicate 10 (replicate 10 ''X'')"
  using C3_long_word_gives_sentinel [of "''ABCDEFGHIJK''" "[''CAT'', ''ABCDEFGHIJK'']" "''s''" 0]
  by simp

subsection \<open>Every grid that passes the verification holds every word\<close>

lemma scanWord_eq:
  "scanWord grid word rv r c d js (okF, okR)
     = (okF \<and> (\<forall>i \<in> set js. hit grid word r c d i), okR \<and> (\<forall>i \<in> set js. hit grid rv r c d i))"
proof (induction js arbitrary: okF okR)
  case Nil
  show ?case by simp
next
  case (Cons j js)
  show ?case
    by (simp add: Cons.IH Let_def hit_def not_less del: One_nat_def) 
qed

lemma lettersAlong_eq:
  assumes len: "length v = n"
  shows "(staysInside r c d n \<and> lettersAlong grid r c d n = map (\<lambda>ch. [ch]) v)
     \<longleftrightarrow> (\<forall>i \<in> set [0..<n]. hit grid v r c d i)"
proof -
  have "lettersAlong grid r c d n = map (\<lambda>ch. [ch]) v
      \<longleftrightarrow> (\<forall>i < n. cellAt grid (r + fst d * int i) (c + snd d * int i) = [v ! i])"
    using len by (simp add: lettersAlong_def list_eq_iff_nth_eq)
  then show ?thesis
    by (auto simp: staysInside_def hit_def)
qed

lemma gridContainsWord_findable: "gridContainsWord grid w \<longleftrightarrow> findable grid w"
proof -
  have "findable grid w \<longleftrightarrow>
      (\<exists>r \<in> {0..<10}. \<exists>c \<in> {0..<10}. \<exists>d \<in> set dirs.
         (staysInside (int r) (int c) d (length w)
            \<and> lettersAlong grid (int r) (int c) d (length w) = map (\<lambda>ch. [ch]) w)
       \<or> (staysInside (int r) (int c) d (length w)
            \<and> lettersAlong grid (int r) (int c) d (length w) = map (\<lambda>ch. [ch]) (rev w)))"
    unfolding findable_def by blast
  also have "\<dots> \<longleftrightarrow>
      (\<exists>r \<in> {0..<10}. \<exists>c \<in> {0..<10}. \<exists>d \<in> set dirs.
         (\<forall>i \<in> set [0..<length w]. hit grid w (int r) (int c) d i)
       \<or> (\<forall>i \<in> set [0..<length w]. hit grid (rev w) (int r) (int c) d i))"
    using lettersAlong_eq [of w "length w"] lettersAlong_eq [of "rev w" "length w"] by simp
  also have "\<dots> \<longleftrightarrow> gridContainsWord grid w"
    by (simp add: gridContainsWord_def Let_def scanWord_eq list_ex_iff atLeastLessThan_upt del: upt.simps set_upt)
  finally show ?thesis by simp
qed

lemma attempt_verified:
  "attempt rng s words = (Some grid, s') \<Longrightarrow> list_all (gridContainsWord grid) words"
  by (auto simp: attempt_def Let_def split: prod.splits option.splits if_splits)

lemma attempts_verified:
  "fst (attempts rng n s words) = sentinelGrid \<or> list_all (gridContainsWord (fst (attempts rng n s words))) words"
proof (induction n arbitrary: s)
  case 0
  show ?case by simp
next
  case (Suc n)
  show ?case
  proof (cases "attempt rng s words")
    case (Pair res s')
    show ?thesis
    proof (cases res)
      case None
      then show ?thesis using Pair Suc.IH [of s'] by simp
    next
      case (Some grid)
      then show ?thesis using Pair attempt_verified [of rng s words grid s'] by simp
    qed
  qed
qed

lemma cellAt_setCell_other:
  "nat r \<noteq> r' \<or> nat c \<noteq> c' \<Longrightarrow> cellAt (setCell grid (int r') (int c') v) r c = cellAt grid r c"
proof (cases "nat r = r'")
  case False
  then show ?thesis by (simp add: cellAt_def setCell_def)
next
  case True
  assume "nat r \<noteq> r' \<or> nat c \<noteq> c'"
  then have c: "nat c \<noteq> c'" using True by simp
  show ?thesis
  proof (cases "r' < length grid")
    case True
    then show ?thesis using c \<open>nat r = r'\<close> by (simp add: cellAt_def setCell_def)
  next
    case False
    then have "grid[r' := (grid ! r')[c' := v]] = grid" by (simp add: list_update_beyond)
    then show ?thesis by (simp add: cellAt_def setCell_def)
  qed
qed

lemma fillCells_keeps:
  "cellAt grid r c \<noteq> [] \<Longrightarrow> cellAt (fst (fillCells rng s grid cells)) r c = cellAt grid r c"
proof (induction cells arbitrary: s grid)
  case Nil
  show ?case by simp
next
  case (Cons cell cells)
  obtain r' c' where cell: "cell = (r', c')" by (cases cell)
  show ?case
  proof (cases "cellAt grid (int r') (int c') = []")
    case False
    then show ?thesis using Cons cell by simp
  next
    case True
    obtain u s' where step: "rng s = (u, s')" by (cases "rng s")
    let ?g = "setCell grid (int r') (int c') [letters ! randIndex u (length letters)]"
    have other: "nat r \<noteq> r' \<or> nat c \<noteq> c'"
      using True Cons.prems by (auto simp: cellAt_def)
    have same: "cellAt ?g r c = cellAt grid r c" by (rule cellAt_setCell_other [OF other])
    then have "cellAt (fst (fillCells rng s' ?g cells)) r c = cellAt ?g r c"
      using Cons.prems by (intro Cons.IH) simp
    then show ?thesis using True cell step same by simp
  qed
qed

lemma attempts_first:
  "attempt rng s words = (Some g, s') \<Longrightarrow> 0 < n \<Longrightarrow> attempts rng n s words = (g, s')"
  by (cases n) simp_all

lemma place_CAT:
  "(case tryPlace streamNext 600 (createSeededRandom ''s'') emptyGrid ''CAT'' of
      (Some g, s) \<Rightarrow> cellAt g 0 3 = ''C'' \<and> cellAt g 1 2 = ''A'' \<and> cellAt g 2 1 = ''T''
    | (None, s) \<Rightarrow> False)"
  by code_simp

lemma generate_CAT: "cellAt (generatePuzzleGuaranteed [''CAT''] ''s'') 0 3 = ''C''"
proof -
  obtain res s1 where tp: "tryPlace streamNext 600 (createSeededRandom ''s'') emptyGrid ''CAT'' = (res, s1)"
    by (cases "tryPlace streamNext 600 (createSeededRandom ''s'') emptyGrid ''CAT''")
  then obtain g where res: "res = Some g"
    and cells: "cellAt g 0 3 = ''C''" "cellAt g 1 2 = ''A''" "cellAt g 2 1 = ''T''"
    using place_CAT by (cases res) simp_all
  obtain g' s2 where fill: "fillCells streamNext s1 g allCells = (g', s2)"
    by (cases "fillCells streamNext s1 g allCells")
  have keep: "cellAt g' 0 3 = ''C''" "cellAt g' 1 2 = ''A''" "cellAt g' 2 1 = ''T''"
    using fillCells_keeps [of g 0 3 streamNext s1 allCells]
      fillCells_keeps [of g 1 2 streamNext s1 allCells]
      fillCells_keeps [of g 2 1 streamNext s1 allCells] cells fill
    by simp_all
  have "staysInside 0 3 (1, -1) 3" by (simp add: staysInside_def)
  moreover have "lettersAlong g' 0 3 (1, -1) 3 = map (\<lambda>ch. [ch]) ''CAT''"
    using keep by (simp add: lettersAlong_def numeral_3_eq_3)
  ultimately have "findable g' ''CAT''"
    unfolding findable_def
    by (rule_tac x = 0 in bexI, rule_tac x = 3 in bexI, rule_tac x = "(1, -1)" in bexI)
      (simp_all add: dirs_def numeral_3_eq_3)
  then have "gridContainsWord g' ''CAT''" by (simp add: gridContainsWord_findable)
  then have "attempt streamNext (createSeededRandom ''s'') [''CAT''] = (Some g', s2)"
    using tp res fill by (simp add: attempt_def)
  then have "attempts streamNext 40 (createSeededRandom ''s'') [''CAT''] = (g', s2)"
    by (rule attempts_first) simp
  then have "generatePuzzleGuaranteed [''CAT''] ''s'' = g'"
    by (simp add: generatePuzzleGuaranteed_def)
  then show ?thesis using keep by simp
qed

lemma sentinel_cell: "cellAt sentinelGrid 0 3 = ''X''"
  by (simp add: cellAt_def sentinelGrid_def)

lemma generate_CAT_not_sentinel: "generatePuzzleGuaranteed [''CAT''] ''s'' \<noteq> sentinelGrid"
  using generate_CAT sentinel_cell by auto

text \<open>
  C1. For every call of \<open>generatePuzzleGuaranteed\<close> whose result is not the sentinel grid, and
  every word of the list, there are a start cell of the grid and one of the eight
  directions such that the \<open>length w\<close> cells from the start along the direction stay inside
  the grid and hold the letters of the word, forward or reversed.
\<close>

theorem C1_findability:
  "generatePuzzleGuaranteed words seed \<noteq> sentinelGrid \<Longrightarrow> w \<in> set words \<Longrightarrow>
     findable (generatePuzzleGuaranteed words seed) w"
  using attempts_verified [of streamNext 40 "createSeededRandom seed" words]
  by (simp add: generatePuzzleGuaranteed_def list_all_iff gridContainsWord_findable)

theorem C1_findability_witness:
  "generatePuzzleGuaranteed [''CAT''] ''s'' \<noteq> sentinelGrid \<and> ''CAT'' \<in> set [''CAT'']
   \<and> findable (generatePuzzleGuaranteed [''CAT''] ''s'') ''CAT''"
  using C1_findability [of "[''CAT'']" "''s''" "''CAT''"] generate_CAT_not_sentinel
  by simp

subsection \<open>One stream for the whole call\<close>

lemma draws_0: "draws rng s 0 = []"
  by (simp add: draws_def)

lemma draws_Suc: "draws rng s (Suc k) = fst (rng s) # draws rng (snd (rng s)) k"
proof -
  have "[0..<Suc k] = 0 # map Suc [0..<k]"
    by (simp add: upt_conv_Cons map_Suc_upt del: upt_Suc)
  then show ?thesis by (simp add: draws_def comp_def del: upt_Suc)
qed

lemma follows_refl: "follows rng s l (r, (s, l)) (r, s)"
  unfolding follows_def by (auto intro: exI [of _ 0] simp: draws_0)

lemma follows_draw:
  assumes "rng s = (u, s')" and "follows rng s' (l @ [u]) X Y"
  shows "follows rng s l X Y"
proof -
  obtain k where k: "snd Y = advance rng s' k" "snd X = (advance rng s' k, (l @ [u]) @ draws rng s' k)"
    and eq: "fst X = fst Y"
    using assms(2) unfolding follows_def by blast
  have "snd Y = advance rng s (Suc k)" using k(1) assms(1) by simp
  moreover have "snd X = (advance rng s (Suc k), l @ draws rng s (Suc k))"
    using k(2) assms(1) by (simp add: draws_Suc)
  ultimately show ?thesis using eq unfolding follows_def by blast
qed

lemma logged_eq: "rng s = (u, s') \<Longrightarrow> logged rng (s, l) = (u, (s', l @ [u]))"
  by (simp add: logged_def)

lemma advance_add: "advance rng s (j + k) = advance rng (advance rng s j) k"
  by (induction j arbitrary: s) simp_all

lemma draws_add: "draws rng s (j + k) = draws rng s j @ draws rng (advance rng s j) k"
  by (induction j arbitrary: s) (simp_all add: draws_0 draws_Suc)

lemma follows_trans:
  assumes "follows rng s l A B" and "follows rng (snd B) (snd (snd A)) X Y"
  shows "follows rng s l X Y"
proof -
  obtain j where j: "snd B = advance rng s j" "snd A = (advance rng s j, l @ draws rng s j)"
    using assms(1) unfolding follows_def by blast
  obtain k where k: "snd Y = advance rng (snd B) k"
      "snd X = (advance rng (snd B) k, snd (snd A) @ draws rng (snd B) k)"
    and eq: "fst X = fst Y"
    using assms(2) unfolding follows_def by blast
  have "snd Y = advance rng s (j + k)" using j k by (simp add: advance_add)
  moreover have "snd X = (advance rng s (j + k), l @ draws rng s (j + k))"
    using j k by (simp add: advance_add draws_add)
  ultimately show ?thesis using eq unfolding follows_def by blast
qed

lemma follows_snd: "follows rng s l A B \<Longrightarrow> fst (snd A) = snd B"
  unfolding follows_def by auto

lemma tryPlace_follows:
  "follows rng s l (tryPlace (logged rng) n (s, l) grid w) (tryPlace rng n s grid w)"
proof (induction n arbitrary: s l)
  case 0
  show ?case by (simp add: follows_refl)
next
  case (Suc n)
  obtain u1 s1 where d1: "rng s = (u1, s1)" by (cases "rng s")
  obtain u2 s2 where d2: "rng s1 = (u2, s2)" by (cases "rng s1")
  obtain u3 s3 where d3: "rng s2 = (u3, s3)" by (cases "rng s2")
  let ?l3 = "((l @ [u1]) @ [u2]) @ [u3]"
  let ?d = "dirs ! randIndex u1 (length dirs)"
  let ?r = "int (randIndex u2 10)"
  let ?c = "int (randIndex u3 10)"
  have plain: "tryPlace rng (Suc n) s grid w =
      (if canPlace grid w ?r ?c ?d [0..<length w]
       then (Some (writeWord grid w ?r ?c ?d [0..<length w]), s3)
       else tryPlace rng n s3 grid w)"
    using d1 d2 d3 by (simp add: Let_def)
  have logd: "tryPlace (logged rng) (Suc n) (s, l) grid w =
      (if canPlace grid w ?r ?c ?d [0..<length w]
       then (Some (writeWord grid w ?r ?c ?d [0..<length w]), (s3, ?l3))
       else tryPlace (logged rng) n (s3, ?l3) grid w)"
    using d1 d2 d3 logged_eq [of rng s u1 s1 l] logged_eq [of rng s1 u2 s2 "l @ [u1]"]
      logged_eq [of rng s2 u3 s3 "(l @ [u1]) @ [u2]"]
    by (simp add: Let_def)
  have "follows rng s3 ?l3 (tryPlace (logged rng) (Suc n) (s, l) grid w) (tryPlace rng (Suc n) s grid w)"
    unfolding plain logd using Suc.IH [of s3 ?l3] by (simp add: follows_refl)
  then show ?case
    using follows_draw [of rng s u1 s1 l] follows_draw [of rng s1 u2 s2 "l @ [u1]"]
      follows_draw [of rng s2 u3 s3 "(l @ [u1]) @ [u2]"] d1 d2 d3 by blast
qed

lemma placeWords_follows:
  "follows rng s l (placeWords (logged rng) (s, l) grid words) (placeWords rng s grid words)"
proof (induction words arbitrary: s l grid)
  case Nil
  show ?case by (simp add: follows_refl)
next
  case (Cons w rest)
  let ?A = "tryPlace (logged rng) 600 (s, l) grid w"
  let ?B = "tryPlace rng 600 s grid w"
  have AB: "follows rng s l ?A ?B" by (rule tryPlace_follows)
  obtain res sl where A: "?A = (res, sl)" by (cases ?A)
  obtain res' s' where B: "?B = (res', s')" by (cases ?B)
  have same: "res' = res" "fst sl = s'"
    using AB A B follows_snd [OF AB] by (simp_all add: follows_def)
  show ?case
  proof (cases res)
    case None
    then show ?thesis using AB A B same by (simp add: follows_def)
  next
    case (Some g)
    have "follows rng s' (snd sl) (placeWords (logged rng) (s', snd sl) g rest) (placeWords rng s' g rest)"
      by (rule Cons.IH)
    then have "follows rng (snd ?B) (snd (snd ?A)) (placeWords (logged rng) (s, l) grid (w # rest))
                 (placeWords rng s grid (w # rest))"
      using A B same Some by (cases sl) simp
    then show ?thesis by (rule follows_trans [OF AB])
  qed
qed

lemma fillCells_follows:
  "follows rng s l (fillCells (logged rng) (s, l) grid cells) (fillCells rng s grid cells)"
proof (induction cells arbitrary: s l grid)
  case Nil
  show ?case by (simp add: follows_refl)
next
  case (Cons cell cells)
  obtain r c where cell: "cell = (r, c)" by (cases cell)
  show ?case
  proof (cases "cellAt grid (int r) (int c) = []")
    case False
    then show ?thesis using Cons.IH [of s l grid] cell by simp
  next
    case True
    obtain u s' where d: "rng s = (u, s')" by (cases "rng s")
    let ?g = "setCell grid (int r) (int c) [letters ! randIndex u (length letters)]"
    have "follows rng s' (l @ [u]) (fillCells (logged rng) (s', l @ [u]) ?g cells) (fillCells rng s' ?g cells)"
      by (rule Cons.IH)
    then have "follows rng s' (l @ [u]) (fillCells (logged rng) (s, l) grid (cell # cells))
        (fillCells rng s grid (cell # cells))"
      using True cell d logged_eq [of rng s u s' l] by simp
    then show ?thesis using d by (rule follows_draw [of rng s u s' l, rotated])
  qed
qed

lemma attempt_follows:
  "follows rng s l (attempt (logged rng) (s, l) words) (attempt rng s words)"
proof -
  let ?A = "placeWords (logged rng) (s, l) emptyGrid words"
  let ?B = "placeWords rng s emptyGrid words"
  have AB: "follows rng s l ?A ?B" by (rule placeWords_follows)
  obtain res sl where A: "?A = (res, sl)" by (cases ?A)
  obtain res' s' where B: "?B = (res', s')" by (cases ?B)
  have same: "res' = res" "fst sl = s'"
    using AB A B follows_snd [OF AB] by (simp_all add: follows_def)
  show ?thesis
  proof (cases res)
    case None
    then show ?thesis using AB A B same by (simp add: follows_def attempt_def)
  next
    case (Some g)
    let ?F = "fillCells (logged rng) (s', snd sl) g allCells"
    let ?G = "fillCells rng s' g allCells"
    have FG: "follows rng s' (snd sl) ?F ?G" by (rule fillCells_follows)
    obtain g1 sl1 where F: "?F = (g1, sl1)" by (cases ?F)
    obtain g2 s2 where G: "?G = (g2, s2)" by (cases ?G)
    have "g2 = g1" using FG F G by (simp add: follows_def)
    then have "follows rng s' (snd sl) (attempt (logged rng) (s, l) words) (attempt rng s words)"
      using FG A B F G same Some by (cases sl) (simp add: attempt_def follows_def)
    then have "follows rng (snd ?B) (snd (snd ?A)) (attempt (logged rng) (s, l) words) (attempt rng s words)"
      using A B by simp
    then show ?thesis by (rule follows_trans [OF AB])
  qed
qed

lemma attempts_follows:
  "follows rng s l (attempts (logged rng) n (s, l) words) (attempts rng n s words)"
proof (induction n arbitrary: s l)
  case 0
  show ?case by (simp add: follows_refl)
next
  case (Suc n)
  let ?A = "attempt (logged rng) (s, l) words"
  let ?B = "attempt rng s words"
  have AB: "follows rng s l ?A ?B" by (rule attempt_follows)
  obtain res sl where A: "?A = (res, sl)" by (cases ?A)
  obtain res' s' where B: "?B = (res', s')" by (cases ?B)
  have same: "res' = res" "fst sl = s'"
    using AB A B follows_snd [OF AB] by (simp_all add: follows_def)
  show ?case
  proof (cases res)
    case (Some g)
    then show ?thesis using AB A B same by (simp add: follows_def)
  next
    case None
    have "follows rng s' (snd sl) (attempts (logged rng) n (s', snd sl) words) (attempts rng n s' words)"
      by (rule Suc.IH)
    then have "follows rng (snd ?B) (snd (snd ?A)) (attempts (logged rng) (Suc n) (s, l) words)
                 (attempts rng (Suc n) s words)"
      using A B same None by (cases sl) simp
    then show ?thesis by (rule follows_trans [OF AB])
  qed
qed

lemma length_draws: "length (draws rng s k) = k"
  by (simp add: draws_def)

text \<open>
  C5. \<open>generatePuzzleGuaranteed\<close> creates the stream once from the seed. Run with the observer,
  the whole call (all attempts together) returns the same grid, and the list of the values
  it consumed, in order, is the list of the first values of that one stream: the \<open>k\<close>-th
  value consumed is the \<open>k\<close>-th value of the stream seeded up front. When an attempt fails,
  the next one runs from the state in which the failed one left the stream.
\<close>

theorem C5_one_stream_for_the_whole_call:
  "fst (attempts (logged streamNext) 40 (createSeededRandom seed, []) words)
     = generatePuzzleGuaranteed words seed
   \<and> snd (snd (attempts (logged streamNext) 40 (createSeededRandom seed, []) words))
     = draws streamNext (createSeededRandom seed)
         (length (snd (snd (attempts (logged streamNext) 40 (createSeededRandom seed, []) words))))
   \<and> (fst (attempt rng s words) = None \<longrightarrow>
        attempts rng (Suc n) s words = attempts rng n (snd (attempt rng s words)) words)"
proof -
  let ?R = "attempts (logged streamNext) 40 (createSeededRandom seed, []) words"
  have "follows streamNext (createSeededRandom seed) [] ?R
          (attempts streamNext 40 (createSeededRandom seed) words)"
    by (rule attempts_follows)
  then obtain k where "fst ?R = fst (attempts streamNext 40 (createSeededRandom seed) words)"
    and "snd ?R = (advance streamNext (createSeededRandom seed) k,
                   draws streamNext (createSeededRandom seed) k)"
    unfolding follows_def by auto
  then have "fst ?R = generatePuzzleGuaranteed words seed"
    and "snd (snd ?R) = draws streamNext (createSeededRandom seed) (length (snd (snd ?R)))"
    by (simp_all add: length_draws generatePuzzleGuaranteed_def)
  moreover have "fst (attempt rng s words) = None \<longrightarrow>
      attempts rng (Suc n) s words = attempts rng n (snd (attempt rng s words)) words"
    by (cases "attempt rng s words") simp
  ultimately show ?thesis by blast
qed

theorem C5_one_stream_for_the_whole_call_witness:
  "fst (attempt streamNext (createSeededRandom ''s'') [''ABCDEFGHIJK'']) = None
   \<and> attempts streamNext (Suc 39) (createSeededRandom ''s'') [''ABCDEFGHIJK'']
     = attempts streamNext 39
         (snd (attempt streamNext (createSeededRandom ''s'') [''ABCDEFGHIJK''])) [''ABCDEFGHIJK'']"
  using C5_one_stream_for_the_whole_call
          [of "''s''" "[''ABCDEFGHIJK'']" streamNext "createSeededRandom ''s''" 39]
    attempt_long [of "''ABCDEFGHIJK''" "[''ABCDEFGHIJK'']" streamNext "createSeededRandom ''s''"]
  by simp

section \<open>The selection engine\<close>

subsection \<open>Pointer moves\<close>















lemma found_clearA: "found (clearA s) = found s"
  by (simp add: clearA_def)

lemma found_clearB: "found (clearB s) = found s"
  by (simp add: clearB_def)



subsection \<open>What a match implies\<close>

lemma farFromEndsA_iff: "farFromEndsA rc live cells \<longleftrightarrow> \<not> nearAnEndA rc live cells"
  by (auto simp: farFromEndsA_def nearAnEndA_def fingerA_def Let_def min_def)

lemma matchLoopA_sound:
  "matchLoopA grid rc fnd live start d words = Inr (Some w) \<Longrightarrow>
     w \<in> set words \<and> w \<notin> fnd
     \<and> \<not> list_ex offGrid (cellsFrom start d (length w))
     \<and> spellsA grid (cellsFrom start d (length w)) w
     \<and> nearAnEndA rc live (cellsFrom start d (length w))"
proof (induction words)
  case Nil
  then show ?case by simp
next
  case (Cons v rest)
  let ?cells = "cellsFrom start d (length v)"
  let ?rest = "matchLoopA grid rc fnd live start d rest"
  show ?case
  proof (cases "v \<in> fnd \<or> list_ex offGrid ?cells")
    case True
    then have "?rest = Inr (Some w)" using Cons.prems by (auto simp: Let_def split: if_splits)
    then show ?thesis using Cons.IH by simp
  next
    case False
    then have opn: "v \<notin> fnd" "\<not> list_ex offGrid ?cells" by simp_all
    show ?thesis
    proof (cases "readCells grid ?cells")
      case None
      then show ?thesis using Cons.prems opn by (simp add: Let_def)
    next
      case (Some tx)
      show ?thesis
      proof (cases "(tx \<noteq> v \<and> rev tx \<noteq> v) \<or> (?cells \<noteq> [] \<and> farFromEndsA rc live ?cells)")
        case True
        then have "?rest = Inr (Some w)" using Cons.prems opn Some
          by (auto simp: Let_def split: if_splits)
        then show ?thesis using Cons.IH by simp
      next
        case False
        then have spelt: "tx = v \<or> rev tx = v" by blast
        have "?cells \<noteq> []" using False Cons.prems opn Some by (auto simp: Let_def)
        then have near: "\<not> farFromEndsA rc live ?cells" using False by blast
        then have "w = v" using Cons.prems opn Some spelt \<open>?cells \<noteq> []\<close> by (auto simp: Let_def)
        moreover have "spellsA grid ?cells v" using Some spelt by (auto simp: spellsA_def)
        ultimately show ?thesis using opn near by (simp add: farFromEndsA_iff)
      qed
    qed
  qed
qed

lemma matchLoopB_sound:
  "matchLoopB grid fnd liftCell start step words = Inr (Some w) \<Longrightarrow>
     w \<in> set words \<and> w \<notin> fnd
     \<and> \<not> offGrid (impliedEnd start step w)
     \<and> liftCloseTo liftCell (impliedEnd start step w) END_TOL
     \<and> spellsB grid (cellsFrom start step (length w)) w"
proof (induction words)
  case Nil
  then show ?case by simp
next
  case (Cons v rest)
  let ?cells = "cellsFrom start step (length v)"
  let ?rest = "matchLoopB grid fnd liftCell start step rest"
  let ?skip = "v \<in> fnd \<or> offGrid (impliedEnd start step v)
      \<or> \<not> liftCloseTo liftCell (impliedEnd start step v) END_TOL"
  show ?case
  proof (cases ?skip)
    case True
    then have "?rest = Inr (Some w)" using Cons.prems by (auto simp: Let_def split: if_splits)
    then show ?thesis using Cons.IH by simp
  next
    case False
    show ?thesis
    proof (cases "readCells grid ?cells")
      case None
      then show ?thesis using Cons.prems False by (simp add: Let_def)
    next
      case fw: (Some forward)
      show ?thesis
      proof (cases "readCells grid (rev ?cells)")
        case None
        then show ?thesis using Cons.prems False fw by (simp add: Let_def)
      next
        case bw: (Some backward)
        show ?thesis
        proof (cases "forward \<noteq> v \<and> backward \<noteq> v")
          case True
          then have "?rest = Inr (Some w)" using Cons.prems False fw bw by (simp add: Let_def)
          then show ?thesis using Cons.IH by simp
        next
          case no: False
          then have "w = v" using Cons.prems False fw bw by (auto simp: Let_def)
          moreover have "spellsB grid ?cells v" using fw bw no by (auto simp: spellsB_def)
          ultimately show ?thesis using False by simp
        qed
      qed
    qed
  qed
qed

subsection \<open>The example gestures\<close>

lemma idle_fields:
  "page idle = Game" "gameReady idle" "\<not> packComplete idle" "found idle = {}"
  "liveLine idle = None" "startCell idle = None" "dirLock idle = None"
  "startPoint idle = None" "lastClient idle = None"
  by (simp_all add: idle_def)

lemma board_fields:
  "rleft board = 0" "rtop board = 0" "rwidth board = 300" "rheight board = 300"
  by (simp_all add: board_def)

lemma downA: "onDownA board idle (45, 75)
    = idle\<lparr>startCell := Some (2, 1), startPoint := Some (45, 75), dirLock := None\<rparr>"
  by (simp add: onDownA_def idle_fields board_fields)

lemma eastA_eq: "eastA = idle\<lparr>startCell := Some (2, 1), startPoint := Some (45, 75),
    dirLock := Some (0, 1), liveLine := Some ((45, 75), (105, 75))\<rparr>"
  by (simp add: eastA_def downA onMoveA_def center_def sign_def idle_fields board_fields)

lemma northA_eq: "northA = idle\<lparr>startCell := Some (2, 1), startPoint := Some (45, 75),
    dirLock := Some (-1, 0), liveLine := Some ((45, 75), (45, 15))\<rparr>"
  by (simp add: northA_def downA onMoveA_def center_def sign_def idle_fields board_fields)


lemma boardCell_values:
  "boardCell 45 75 = Some (2, 1)" "boardCell 55 75 = Some (2, 1)" "boardCell 64 75 = Some (2, 2)"
  "boardCell 105 75 = Some (2, 3)" "boardCell 310 75 = None"
  by (simp_all add: boardCell_def)

lemma downB: "onDownB boardCell board idle (45, 75)
    = idle\<lparr>startCell := Some (2, 1), startPoint := Some (45, 75), lastClient := Some (45, 75),
           dirLock := None, liveLine := Some ((45, 75), (45, 75))\<rparr>"
  by (simp add: onDownB_def boardCell_values center_def idle_fields board_fields)


lemma northThenEastB_eq: "northThenEastB = idle\<lparr>startCell := Some (2, 1),
    startPoint := Some (45, 75), lastClient := Some (105, 75), dirLock := Some (-1, 0),
    liveLine := Some ((45, 75), (105, 75))\<rparr>"
  by (simp add: northThenEastB_def downB onMoveB_def center_def sign_def idle_fields board_fields)


lemma outsideB_eq: "outsideB = idle\<lparr>startCell := Some (2, 1),
    startPoint := Some (45, 75), lastClient := Some (310, 75), dirLock := Some (0, 1),
    liveLine := Some ((45, 75), (310, 75))\<rparr>"
  by (simp add: outsideB_def downB onMoveB_def center_def sign_def idle_fields board_fields)

lemma cells_east: "cellsFrom (2, 1) (0, 1) (length ''CAT'') = [(2, 1), (2, 2), (2, 3)]"
  by (simp add: cellsFrom_def)

lemma cells_north: "cellsFrom (2, 1) (-1, 0) (length ''CAT'') = [(2, 1), (1, 1), (0, 1)]"
  by (simp add: cellsFrom_def)

lemma read_east: "readCells catGrid [(2, 1), (2, 2), (2, 3)] = Some ''CAT''"
  by (simp add: readCells_def readCell_def catGrid_def)

lemma read_west: "readCells catGrid [(2, 3), (2, 2), (2, 1)] = Some ''TAC''"
  by (simp add: readCells_def readCell_def catGrid_def)

lemma read_north: "readCells catGrid [(2, 1), (1, 1), (0, 1)] = Some ''CXX''"
  by (simp add: readCells_def readCell_def catGrid_def)

lemma not_off: "\<not> list_ex offGrid [(2, 1), (2, 2), (2, 3)]" "\<not> list_ex offGrid [(2, 1), (1, 1), (0, 1)]"
  by (simp_all add: offGrid_def)

lemma near_end: "\<not> farFromEndsA board (Some ((45, 75), (105, 75))) [(2, 1), (2, 2), (2, 3)]"
  by (simp add: farFromEndsA_def center_def dist_def board_fields Let_def)


lemma upA_east: "onUpA catGrid [''CAT''] board eastA = Inr (clearA (eastA\<lparr>found := {''CAT''}\<rparr>))"
proof -
  have "matchLoopA catGrid board {} (Some ((45, 75), (105, 75))) (2, 1) (0, 1) [''CAT'']
          = Inr (Some ''CAT'')"
    using cells_east read_east not_off(1) near_end by (simp add: Let_def)
  then show ?thesis by (simp add: onUpA_def eastA_eq idle_fields)
qed


lemma upA_north: "onUpA catGrid [''CAT''] board northA = Inr (clearA northA)"
proof -
  have "matchLoopA catGrid board {} (Some ((45, 75), (45, 15))) (2, 1) (-1, 0) [''CAT'']
          = Inr None"
    using cells_north read_north not_off(2) by (simp add: Let_def)
  then show ?thesis by (simp add: onUpA_def northA_eq idle_fields)
qed

lemma end_east: "impliedEnd (2, 1) (0, 1) ''CAT'' = (2, 3)"
  by (simp add: impliedEnd_def)

lemma matchB_east:
  "liftCloseTo lc (2, 3) END_TOL \<Longrightarrow>
   matchLoopB catGrid {} lc (2, 1) (0, 1) [''CAT''] = Inr (Some ''CAT'')"
  using cells_east read_east read_west end_east by (simp add: Let_def offGrid_def)

lemma upB_northThenEast:
  "onUpB catGrid [''CAT''] boardCell northThenEastB
     = Inr (clearB (northThenEastB\<lparr>found := {''CAT''}\<rparr>))"
proof -
  have step: "releaseStep (Some (45, 75)) (105, 75) (Some (2, 3)) (2, 1) = Some (0, 1)"
    by (simp add: releaseStep_def sign_def)
  have "matchLoopB catGrid {} (Some (2, 3)) (2, 1) (0, 1) [''CAT''] = Inr (Some ''CAT'')"
    by (rule matchB_east) (simp add: liftCloseTo_def)
  then show ?thesis
    using step by (simp add: onUpB_def northThenEastB_eq idle_fields boardCell_values)
qed


lemma upB_outside:
  "onUpB catGrid [''CAT''] boardCell outsideB = Inr (clearB (outsideB\<lparr>found := {''CAT''}\<rparr>))"
proof -
  have step: "releaseStep (Some (45, 75)) (310, 75) None (2, 1) = Some (0, 1)"
    by (simp add: releaseStep_def sign_def)
  have "matchLoopB catGrid {} None (2, 1) (0, 1) [''CAT''] = Inr (Some ''CAT'')"
    by (rule matchB_east) (simp add: liftCloseTo_def)
  then show ?thesis
    using step by (simp add: onUpB_def outsideB_eq idle_fields boardCell_values)
qed

lemma onUpA_match:
  assumes up: "onUpA grid words rc s = Inr s'" and inn: "w \<in> found s'" and out: "w \<notin> found s"
  shows "\<exists>start d. startCell s = Some start \<and> dirLock s = Some d
           \<and> matchLoopA grid rc (found s) (liveLine s) start d words = Inr (Some w)"
proof -
  have differs: "s' \<noteq> clearA s" using inn out by (auto simp: found_clearA)
  have guards: "page s = Game" "gameReady s"
    using up differs by (auto simp: onUpA_def split: if_splits)
  obtain start where start: "startCell s = Some start"
    using up differs guards by (cases "startCell s") (auto simp: onUpA_def)
  obtain d where d: "dirLock s = Some d"
    using up differs guards start by (cases "dirLock s") (auto simp: onUpA_def)
  have running: "\<not> packComplete s"
    using up differs guards start d by (auto simp: onUpA_def split: if_splits)
  let ?m = "matchLoopA grid rc (found s) (liveLine s) start d words"
  have "?m = Inr (Some w)"
  proof (cases ?m)
    case (Inl err)
    then show ?thesis using up guards start d running by (simp add: onUpA_def)
  next
    case (Inr res)
    show ?thesis
    proof (cases res)
      case None
      then show ?thesis using up differs guards start d running Inr by (simp add: onUpA_def)
    next
      case (Some v)
      then have "s' = clearA (s\<lparr>found := insert v (found s)\<rparr>)"
        using up guards start d running Inr by (simp add: onUpA_def)
      then have "w = v" using inn out by (simp add: found_clearA)
      then show ?thesis using Inr Some by simp
    qed
  qed
  then show ?thesis using start d by blast
qed

lemma onUpB_match:
  assumes up: "onUpB grid words cfc s = Inr s'" and inn: "w \<in> found s'" and out: "w \<notin> found s"
  shows "\<exists>start lift step. startCell s = Some start \<and> lastClient s = Some lift
           \<and> releaseStep (startPoint s) lift (cfc (fst lift) (snd lift)) start = Some step
           \<and> matchLoopB grid (found s) (cfc (fst lift) (snd lift)) start step words = Inr (Some w)"
proof -
  have differs: "s' \<noteq> clearB s" using inn out by (auto simp: found_clearB)
  have guards: "page s = Game" "gameReady s" "\<not> packComplete s"
    using up differs by (auto simp: onUpB_def split: if_splits)
  obtain start where start: "startCell s = Some start"
    using up differs guards by (cases "startCell s") (auto simp: onUpB_def)
  obtain lift where lift: "lastClient s = Some lift"
    using up differs guards start by (cases "lastClient s") (auto simp: onUpB_def)
  let ?lc = "cfc (fst lift) (snd lift)"
  obtain step where step: "releaseStep (startPoint s) lift ?lc start = Some step"
    using up differs guards start lift
    by (cases "releaseStep (startPoint s) lift ?lc start") (auto simp: onUpB_def Let_def)
  have moving: "\<not> (fst step = 0 \<and> snd step = 0)"
    using up differs guards start lift step by (auto simp: onUpB_def Let_def split: if_splits)
  let ?m = "matchLoopB grid (found s) ?lc start step words"
  have "?m = Inr (Some w)"
  proof (cases ?m)
    case (Inl err)
    then show ?thesis using up guards start lift step moving by (simp add: onUpB_def Let_def)
  next
    case (Inr res)
    show ?thesis
    proof (cases res)
      case None
      then show ?thesis
        using up differs guards start lift step moving Inr by (simp add: onUpB_def Let_def)
    next
      case (Some v)
      then have "s' = clearB (s\<lparr>found := insert v (found s)\<rparr>)"
        using up guards start lift step moving Inr by (simp add: onUpB_def Let_def)
      then have "w = v" using inn out by (simp add: found_clearB)
      then show ?thesis using Inr Some by simp
    qed
  qed
  then show ?thesis using start lift step by blast
qed

lemma onUpB_ignores_lock: "onUpB grid words cfc (s\<lparr>dirLock := x\<rparr>) = onUpB grid words cfc s"
proof -
  have c: "clearB (s\<lparr>dirLock := x\<rparr>) = clearB s" by (simp add: clearB_def)
  have f: "clearB (s\<lparr>dirLock := x, found := F\<rparr>) = clearB (s\<lparr>found := F\<rparr>)" for F
    by (simp add: clearB_def)
  show ?thesis
    unfolding onUpB_def by (simp add: c f Let_def split: option.splits sum.splits)
qed

subsection \<open>Direction lock\<close>



subsection \<open>Drags below the threshold\<close>





subsection \<open>The direction used at pointer-up\<close>

text \<open>
  The claim C7 as stated fails in version B. The gesture \<open>northThenEastB\<close> starts in cell
  (2,1), moves 15 pixels north, which locks North, and then east to cell (2,3). The
  letters north of (2,1) do not spell \<open>CAT\<close>, but \<open>onUp\<close> of version B derives East from
  the displacement at release and marks \<open>CAT\<close> found.
\<close>

theorem C7_counterexample:
  "startCell northThenEastB = Some (2, 1) \<and> dirLock northThenEastB = Some (-1, 0)
   \<and> found northThenEastB = {}
   \<and> readCells catGrid (cellsFrom (2, 1) (-1, 0) (length ''CAT'')) = Some ''CXX''
   \<and> onUpB catGrid [''CAT''] boardCell northThenEastB
        = Inr (clearB (northThenEastB\<lparr>found := {''CAT''}\<rparr>))
   \<and> found (clearB (northThenEastB\<lparr>found := {''CAT''}\<rparr>)) = {''CAT''}"
  using upB_northThenEast cells_north read_north
  by (simp add: northThenEastB_eq idle_fields found_clearB)

text \<open>
  C7, amended. In version A a word is matched on pointer-up only along the locked
  direction: the cells are the start cell plus the locked direction times the offsets
  \<open>0 .. length - 1\<close>, all inside the grid, and their letters spell the word forward or
  reversed. With \<open>CAT\<close> placed eastward from row 2, column 1, the gesture from (2,1) locked
  East and released on the centre of (2,3) matches it, and the gesture from (2,1) locked
  North does not. In version B a word is matched only along the direction that \<open>onUp\<close>
  derives at release from the start point and the last pointer position; the locked
  direction has no influence on the outcome.
\<close>

theorem C7_match_along_the_direction_used:
  "(onUpA grid words rc s = Inr s' \<and> w \<in> found s' \<and> w \<notin> found s \<longrightarrow>
      (\<exists>start d. startCell s = Some start \<and> dirLock s = Some d
         \<and> \<not> list_ex offGrid (cellsFrom start d (length w))
         \<and> spellsA grid (cellsFrom start d (length w)) w))
   \<and> (onUpB grid words cfc t = Inr t' \<and> w \<in> found t' \<and> w \<notin> found t \<longrightarrow>
      (\<exists>start lift step. startCell t = Some start \<and> lastClient t = Some lift
         \<and> releaseStep (startPoint t) lift (cfc (fst lift) (snd lift)) start = Some step
         \<and> spellsB grid (cellsFrom start step (length w)) w))
   \<and> onUpB grid words cfc (t\<lparr>dirLock := x\<rparr>) = onUpB grid words cfc t
   \<and> startCell eastA = Some (2, 1) \<and> dirLock eastA = Some (0, 1)
   \<and> onUpA catGrid [''CAT''] board eastA = Inr (clearA (eastA\<lparr>found := {''CAT''}\<rparr>))
   \<and> startCell northA = Some (2, 1) \<and> dirLock northA = Some (-1, 0)
   \<and> onUpA catGrid [''CAT''] board northA = Inr (clearA northA)"
proof -
  have a: "onUpA grid words rc s = Inr s' \<and> w \<in> found s' \<and> w \<notin> found s \<longrightarrow>
      (\<exists>start d. startCell s = Some start \<and> dirLock s = Some d
         \<and> \<not> list_ex offGrid (cellsFrom start d (length w))
         \<and> spellsA grid (cellsFrom start d (length w)) w)"
  proof
    assume h: "onUpA grid words rc s = Inr s' \<and> w \<in> found s' \<and> w \<notin> found s"
    then obtain start d where sd: "startCell s = Some start" "dirLock s = Some d"
      and m: "matchLoopA grid rc (found s) (liveLine s) start d words = Inr (Some w)"
      using onUpA_match [of grid words rc s s' w] by blast
    show "\<exists>start d. startCell s = Some start \<and> dirLock s = Some d
         \<and> \<not> list_ex offGrid (cellsFrom start d (length w))
         \<and> spellsA grid (cellsFrom start d (length w)) w"
      using sd matchLoopA_sound [OF m] by blast
  qed
  have b: "onUpB grid words cfc t = Inr t' \<and> w \<in> found t' \<and> w \<notin> found t \<longrightarrow>
      (\<exists>start lift step. startCell t = Some start \<and> lastClient t = Some lift
         \<and> releaseStep (startPoint t) lift (cfc (fst lift) (snd lift)) start = Some step
         \<and> spellsB grid (cellsFrom start step (length w)) w)"
  proof
    assume h: "onUpB grid words cfc t = Inr t' \<and> w \<in> found t' \<and> w \<notin> found t"
    then obtain start lift step where sl: "startCell t = Some start" "lastClient t = Some lift"
        "releaseStep (startPoint t) lift (cfc (fst lift) (snd lift)) start = Some step"
      and m: "matchLoopB grid (found t) (cfc (fst lift) (snd lift)) start step words = Inr (Some w)"
      using onUpB_match [of grid words cfc t t' w] by blast
    show "\<exists>start lift step. startCell t = Some start \<and> lastClient t = Some lift
         \<and> releaseStep (startPoint t) lift (cfc (fst lift) (snd lift)) start = Some step
         \<and> spellsB grid (cellsFrom start step (length w)) w"
      using sl matchLoopB_sound [OF m] by blast
  qed
  have c: "startCell eastA = Some (2, 1) \<and> dirLock eastA = Some (0, 1)
      \<and> startCell northA = Some (2, 1) \<and> dirLock northA = Some (-1, 0)"
    by (simp add: eastA_eq northA_eq)
  show ?thesis
    using a b c onUpB_ignores_lock [of grid words cfc x t] upA_east upA_north by blast
qed

theorem C7_match_along_the_direction_used_witness:
  "onUpA catGrid [''CAT''] board eastA = Inr (clearA (eastA\<lparr>found := {''CAT''}\<rparr>))
   \<and> ''CAT'' \<in> found (clearA (eastA\<lparr>found := {''CAT''}\<rparr>)) \<and> ''CAT'' \<notin> found eastA
   \<and> (\<exists>start d. startCell eastA = Some start \<and> dirLock eastA = Some d
         \<and> \<not> list_ex offGrid (cellsFrom start d (length ''CAT''))
         \<and> spellsA catGrid (cellsFrom start d (length ''CAT'')) ''CAT'')
   \<and> onUpB catGrid [''CAT''] boardCell outsideB = Inr (clearB (outsideB\<lparr>found := {''CAT''}\<rparr>))
   \<and> ''CAT'' \<in> found (clearB (outsideB\<lparr>found := {''CAT''}\<rparr>)) \<and> ''CAT'' \<notin> found outsideB
   \<and> (\<exists>start lift step. startCell outsideB = Some start \<and> lastClient outsideB = Some lift
         \<and> releaseStep (startPoint outsideB) lift (boardCell (fst lift) (snd lift)) start = Some step
         \<and> spellsB catGrid (cellsFrom start step (length ''CAT'')) ''CAT'')"
proof -
  have ha: "''CAT'' \<in> found (clearA (eastA\<lparr>found := {''CAT''}\<rparr>))" "''CAT'' \<notin> found eastA"
    by (simp_all add: found_clearA eastA_eq idle_fields)
  have hb: "''CAT'' \<in> found (clearB (outsideB\<lparr>found := {''CAT''}\<rparr>))" "''CAT'' \<notin> found outsideB"
    by (simp_all add: found_clearB outsideB_eq idle_fields)
  note inst = C7_match_along_the_direction_used
      [of catGrid "[''CAT'']" board eastA "clearA (eastA\<lparr>found := {''CAT''}\<rparr>)" "''CAT''"
          boardCell outsideB "clearB (outsideB\<lparr>found := {''CAT''}\<rparr>)" None]
  have "\<exists>start d. startCell eastA = Some start \<and> dirLock eastA = Some d
         \<and> \<not> list_ex offGrid (cellsFrom start d (length ''CAT''))
         \<and> spellsA catGrid (cellsFrom start d (length ''CAT'')) ''CAT''"
    using inst upA_east ha by blast
  moreover have "\<exists>start lift step. startCell outsideB = Some start \<and> lastClient outsideB = Some lift
         \<and> releaseStep (startPoint outsideB) lift (boardCell (fst lift) (snd lift)) start = Some step
         \<and> spellsB catGrid (cellsFrom start step (length ''CAT'')) ''CAT''"
    using inst upB_outside hb by blast
  ultimately show ?thesis using upA_east upB_outside ha hb by blast
qed

subsection \<open>The tolerance at the release point\<close>




subsection \<open>A release point outside the grid\<close>

lemma readCells_rev_None: "readCells grid (rev cells) = None \<longleftrightarrow> readCells grid cells = None"
  by (simp add: readCells_def list_ex_iff)

lemma matchLoopB_skip_found:
  "set pre \<subseteq> fnd \<Longrightarrow>
   matchLoopB grid fnd lc start step (pre @ ws) = matchLoopB grid fnd lc start step ws"
  by (induction pre) simp_all

text \<open>
  C10. In version B, when the release point resolves to no grid cell (\<open>cellFromClient\<close>
  returns null), the tolerance test counts as passed: the first word not yet found whose
  implied end cell is inside the grid and whose letters along the derived direction spell
  it, forward or backward, is added to the found set, whatever the release point is.
\<close>

theorem C10_release_outside_the_grid:
  assumes "page s = Game" and "gameReady s" and "\<not> packComplete s"
    and "startCell s = Some start" and "lastClient s = Some lift"
    and "cellFromClient (fst lift) (snd lift) = None"
    and "releaseStep (startPoint s) lift None start = Some step"
    and "\<not> (fst step = 0 \<and> snd step = 0)"
    and "set pre \<subseteq> found s" and "w \<notin> found s"
    and "\<not> offGrid (impliedEnd start step w)"
    and "spellsB grid (cellsFrom start step (length w)) w"
  shows "liftCloseTo (cellFromClient (fst lift) (snd lift)) (impliedEnd start step w) END_TOL
     \<and> onUpB grid (pre @ w # rest) cellFromClient s
         = Inr (clearB (s\<lparr>found := insert w (found s)\<rparr>))"
proof -
  let ?cells = "cellsFrom start step (length w)"
  have close: "liftCloseTo None (impliedEnd start step w) END_TOL"
    by (simp add: liftCloseTo_def)
  obtain fw where fw: "readCells grid ?cells = Some fw"
    using assms(12) readCells_rev_None [of grid ?cells]
    by (cases "readCells grid ?cells") (auto simp: spellsB_def)
  obtain bw where bw: "readCells grid (rev ?cells) = Some bw"
    using fw readCells_rev_None [of grid ?cells] by (cases "readCells grid (rev ?cells)") auto
  have hit: "fw = w \<or> bw = w" using assms(12) fw bw by (auto simp: spellsB_def)
  have "matchLoopB grid (found s) None start step (w # rest) = Inr (Some w)"
    using assms(10) assms(11) close fw bw hit by (auto simp: Let_def)
  then have "matchLoopB grid (found s) None start step (pre @ w # rest) = Inr (Some w)"
    using matchLoopB_skip_found [OF assms(9)] by simp
  moreover have "(if fst step = 0 \<and> snd step = 0 then a else b) = b" for a b :: "jsError + gesture"
    using assms(8) by auto
  ultimately have "onUpB grid (pre @ w # rest) cellFromClient s
      = Inr (clearB (s\<lparr>found := insert w (found s)\<rparr>))"
    using assms(1-7) by (simp add: onUpB_def Let_def)
  then show ?thesis using close assms(6) by simp
qed

theorem C10_release_outside_the_grid_witness:
  "page outsideB = Game \<and> gameReady outsideB \<and> \<not> packComplete outsideB
   \<and> startCell outsideB = Some (2, 1) \<and> lastClient outsideB = Some (310, 75)
   \<and> boardCell (fst (310, 75)) (snd (310, 75)) = None
   \<and> releaseStep (startPoint outsideB) (310, 75) None (2, 1) = Some (0, 1)
   \<and> set [] \<subseteq> found outsideB \<and> ''CAT'' \<notin> found outsideB
   \<and> \<not> offGrid (impliedEnd (2, 1) (0, 1) ''CAT'')
   \<and> spellsB catGrid (cellsFrom (2, 1) (0, 1) (length ''CAT'')) ''CAT''
   \<and> onUpB catGrid ([] @ ''CAT'' # []) boardCell outsideB
        = Inr (clearB (outsideB\<lparr>found := insert ''CAT'' (found outsideB)\<rparr>))"
proof -
  have st: "page outsideB = Game" "gameReady outsideB" "\<not> packComplete outsideB"
    "startCell outsideB = Some (2, 1)" "lastClient outsideB = Some (310, 75)"
    "set [] \<subseteq> found outsideB" "''CAT'' \<notin> found outsideB"
    by (simp_all add: outsideB_eq idle_fields)
  have out: "boardCell (fst (310, 75)) (snd (310, 75)) = None"
    by (simp add: boardCell_values)
  have step: "releaseStep (startPoint outsideB) (310, 75) None (2, 1) = Some (0, 1)"
    by (simp add: outsideB_eq releaseStep_def sign_def)
  have moving: "\<not> (fst ((0, 1) :: Cell) = 0 \<and> snd ((0, 1) :: Cell) = 0)" by simp
  have on: "\<not> offGrid (impliedEnd (2, 1) (0, 1) ''CAT'')"
    by (simp add: end_east offGrid_def)
  have sp: "spellsB catGrid (cellsFrom (2, 1) (0, 1) (length ''CAT'')) ''CAT''"
    using cells_east read_east by (simp add: spellsB_def)
  have "onUpB catGrid ([] @ ''CAT'' # []) boardCell outsideB
        = Inr (clearB (outsideB\<lparr>found := insert ''CAT'' (found outsideB)\<rparr>))"
    using C10_release_outside_the_grid [where s = outsideB and start = "(2, 1)"
        and lift = "(310, 75)" and cellFromClient = boardCell and step = "(0, 1)"
        and pre = "[]" and w = "''CAT''" and grid = catGrid and rest = "[]"]
      st out step moving on sp
    by blast
  then show ?thesis using st out step on sp by blast
qed

end
